theory Spec2Isabelle
  imports Complex_Main
begin

section \<open>Text model\<close>

text \<open>
  A Python \<open>str\<close> is a sequence of Unicode code points, so a string is modelled as a list
  of code points (natural numbers; a well-formed string has every element at most
  \<open>0x10FFFF\<close>). \<open>len\<close>, slicing and the regular expressions of the source all count
  code points, and so does the model.
\<close>

type_synonym ustr = "nat list"

definition str :: "string \<Rightarrow> ustr" where
  "str s = map of_char s"

definition wf_str :: "ustr \<Rightarrow> bool" where
  "wf_str s = list_all (\<lambda>c. c \<le> 0x10FFFF) s"

text \<open>
  The characters for which \<open>str.isspace\<close> holds. The class \<open>\s\<close> of \<open>re\<close> on a
  \<open>str\<close> pattern, \<open>str.strip()\<close> and \<open>str.split()\<close> all use this one predicate.
\<close>

definition is_space :: "nat \<Rightarrow> bool" where
  "is_space c = (c \<in> {0x09, 0x0A, 0x0B, 0x0C, 0x0D, 0x1C, 0x1D, 0x1E, 0x1F, 0x20, 0x85, 0xA0,
     0x1680, 0x2000, 0x2001, 0x2002, 0x2003, 0x2004, 0x2005, 0x2006, 0x2007, 0x2008, 0x2009,
     0x200A, 0x2028, 0x2029, 0x202F, 0x205F, 0x3000})"

text \<open>\<open>s.strip()\<close>: drop leading and trailing whitespace.\<close>

definition strip :: "ustr \<Rightarrow> ustr" where
  "strip s = rev (dropWhile is_space (rev (dropWhile is_space s)))"

section \<open>Text cleanup helpers\<close>

subsection \<open>The reply-to tag pattern\<close>

text \<open>
  \<open>\[\[\s*reply_to[^\]]*\]\]\<close> with \<open>re.I\<close>, matched at the start of a string. The greedy
  \<open>\s*\<close> never has to give characters back, because the literal that follows it is not
  whitespace; neither has \<open>[^\]]*\<close>, because the literal that follows it is the excluded
  character. So the match is deterministic: skip the whitespace run, read the literal
  ignoring case, skip to the first \<open>]\<close>. No character outside ASCII matches a letter of
  \<open>reply_to\<close> when case is ignored. The result is the rest of the string after the match.
\<close>

definition lower_ascii :: "nat \<Rightarrow> nat" where
  "lower_ascii c = (if 0x41 \<le> c \<and> c \<le> 0x5A then c + 0x20 else c)"

definition match_tag :: "ustr \<Rightarrow> ustr option" where
  "match_tag s =
     (case s of
        a # b # r \<Rightarrow>
          if a = 0x5B \<and> b = 0x5B then
            (let r1 = dropWhile is_space r in
             if map lower_ascii (take 8 r1) = str ''reply_to'' then
               (case dropWhile (\<lambda>c. c \<noteq> 0x5D) (drop 8 r1) of
                  c # d # r3 \<Rightarrow> if d = 0x5D then Some r3 else None
                | _ \<Rightarrow> None)
             else None)
          else None
      | _ \<Rightarrow> None)"

lemma length_dropWhile_less: "length (dropWhile P xs) < Suc (length xs)"
  by (simp add: length_dropWhile_le less_Suc_eq_le)

lemma match_tag_shorter: "match_tag s = Some r \<Longrightarrow> length r < length s"
proof -
  assume m: "match_tag s = Some r"
  then obtain a b t where s: "s = a # b # t"
    by (auto simp: match_tag_def split: list.splits)
  define r1 where "r1 = dropWhile is_space t"
  define r2 where "r2 = dropWhile (\<lambda>c. c \<noteq> 0x5D) (drop 8 r1)"
  from m s obtain c d where r2: "r2 = c # d # r"
    by (auto simp: match_tag_def Let_def r1_def r2_def split: if_splits list.splits)
  have "length r2 \<le> length r1"
    unfolding r2_def by (rule order_trans[OF length_dropWhile_le]) simp
  moreover have "length r1 \<le> length t"
    unfolding r1_def by (rule length_dropWhile_le)
  ultimately show ?thesis using r2 s by simp
qed

text \<open>
  \<open>re.sub(pattern, "", text)\<close> for the tag pattern: scan from the left; where the pattern
  matches, drop the match and go on after it; otherwise keep the character.
\<close>

function sub_tags :: "ustr \<Rightarrow> ustr" where
  "sub_tags [] = []"
| "sub_tags (x # xs) =
     (case match_tag (x # xs) of
        Some r \<Rightarrow> sub_tags r
      | None \<Rightarrow> x # sub_tags xs)"
  by pat_completeness auto
termination
  by (relation "measure length") (auto dest: match_tag_shorter)

subsection \<open>clean_text\<close>

text \<open>The class \<open>[`*_#>~]\<close>.\<close>

definition md_char :: "nat \<Rightarrow> bool" where
  "md_char c = (c \<in> {0x60, 0x2A, 0x5F, 0x23, 0x3E, 0x7E})"

text \<open>\<open>re.sub(r"[`*_#>~]", "", t)\<close>: every character of the class is dropped.\<close>

definition sub_md :: "ustr \<Rightarrow> ustr" where
  "sub_md t = concat (map (\<lambda>c. if md_char c then [] else [c]) t)"

text \<open>\<open>t.replace(old, new)\<close> for an \<open>old\<close> of one character.\<close>

definition replace_chr :: "nat \<Rightarrow> ustr \<Rightarrow> ustr \<Rightarrow> ustr" where
  "replace_chr old new t = concat (map (\<lambda>c. if c = old then new else [c]) t)"

text \<open>
  \<open>re.sub(r"\s+", " ", t)\<close>: each maximal run of whitespace becomes one space.
\<close>

function sub_ws :: "ustr \<Rightarrow> ustr" where
  "sub_ws [] = []"
| "sub_ws (x # xs) =
     (if is_space x then 0x20 # sub_ws (dropWhile is_space xs) else x # sub_ws xs)"
  by pat_completeness auto
termination
  by (relation "measure length") (auto simp: length_dropWhile_less)

definition clean_text :: "ustr \<Rightarrow> ustr" where
  "clean_text text =
     (let t = sub_tags text;
          t = sub_md t;
          t = replace_chr 0x2013 (str '', '')
                (replace_chr 0x2014 (str '', '') (replace_chr 0x0A (str '' '') t));
          t = strip (sub_ws t)
      in t)"

subsection \<open>strip_emoji and the ASCII coercion\<close>

text \<open>\<open>re.sub(r"[\U00010000-\U0010ffff]", "", text)\<close>.\<close>

definition strip_emoji :: "ustr \<Rightarrow> ustr" where
  "strip_emoji text = concat (map (\<lambda>c. if 0x10000 \<le> c \<and> c \<le> 0x10FFFF then [] else [c]) text)"

section \<open>Exceptions and JSON values\<close>

text \<open>
  An exception: the \<open>except\<close> clause of the loop that it meets first (it is an
  \<open>EOFError\<close>; a \<open>KeyboardInterrupt\<close>; any other \<open>Exception\<close>; any other
  \<open>BaseException\<close>, which no clause catches), its class name and its message.
\<close>

datatype exn_class = IsEOFError | IsKeyboardInterrupt | IsException | IsBaseException

datatype exn = Exn (exn_class: exn_class) (exn_name: ustr) (exn_msg: ustr)

text \<open>
  \<open>reply.encode("ascii", "ignore")\<close> gives the bytes of the ASCII characters and nothing for
  any other character; \<open>.decode("ascii")\<close> raises on a byte above 127.
\<close>

definition encode_ascii_ignore :: "ustr \<Rightarrow> nat list" where
  "encode_ascii_ignore s = concat (map (\<lambda>c. if c < 0x80 then [c] else []) s)"

definition decode_ascii :: "nat list \<Rightarrow> exn + ustr" where
  "decode_ascii bs =
     (if list_all (\<lambda>b. b < 0x80) bs then Inr bs
      else Inl (Exn IsException (str ''UnicodeDecodeError'') (str ''ordinal not in range(128)'')))"

definition ascii_ignore :: "ustr \<Rightarrow> exn + ustr" where
  "ascii_ignore s = decode_ascii (encode_ascii_ignore s)"

text \<open>
  What \<open>json.loads\<close> returns. A \<open>dict\<close> is the list of its items in insertion order, looked
  up with \<open>map_of\<close>. \<open>NaN\<close> and the infinities are accepted by Python's parser.
\<close>

datatype pyfloat = Finite rat | PosInf | NegInf | NaN

datatype json =
    JNull
  | JBool bool
  | JInt int
  | JFloat pyfloat
  | JStr ustr
  | JArr "json list"
  | JObj "(ustr \<times> json) list"

text \<open>The truth value of an object, as \<open>or\<close> tests it.\<close>

fun truthy :: "json \<Rightarrow> bool" where
  "truthy JNull = False"
| "truthy (JBool b) = b"
| "truthy (JInt n) = (n \<noteq> 0)"
| "truthy (JFloat f) = (f \<noteq> Finite 0)"
| "truthy (JStr s) = (s \<noteq> [])"
| "truthy (JArr xs) = (xs \<noteq> [])"
| "truthy (JObj kv) = (kv \<noteq> [])"

definition py_or :: "json \<Rightarrow> json \<Rightarrow> json" where
  "py_or a b = (if truthy a then a else b)"

fun type_name :: "json \<Rightarrow> ustr" where
  "type_name JNull = str ''NoneType''"
| "type_name (JBool b) = str ''bool''"
| "type_name (JInt n) = str ''int''"
| "type_name (JFloat f) = str ''float''"
| "type_name (JStr s) = str ''str''"
| "type_name (JArr xs) = str ''list''"
| "type_name (JObj kv) = str ''dict''"

definition attribute_error :: "json \<Rightarrow> ustr \<Rightarrow> exn" where
  "attribute_error v attr =
     Exn IsException (str ''AttributeError'')
       ([0x27] @ type_name v @ [0x27] @ str '' object has no attribute '' @ [0x27] @ attr @ [0x27])"

definition not_iterable :: "json \<Rightarrow> exn" where
  "not_iterable v =
     Exn IsException (str ''TypeError'') ([0x27] @ type_name v @ [0x27] @ str '' object is not iterable'')"

text \<open>\<open>v.get(key)\<close>: only a \<open>dict\<close> has the method; a missing key gives \<open>None\<close>.\<close>

fun py_get :: "json \<Rightarrow> ustr \<Rightarrow> exn + json" where
  "py_get (JObj kv) k = Inr (case map_of kv k of Some v \<Rightarrow> v | None \<Rightarrow> JNull)"
| "py_get v k = Inl (attribute_error v (str ''get''))"

text \<open>\<open>v.strip()\<close>: only a \<open>str\<close> has the method.\<close>

fun py_strip :: "json \<Rightarrow> exn + ustr" where
  "py_strip (JStr s) = Inr (strip s)"
| "py_strip v = Inl (attribute_error v (str ''strip''))"

text \<open>
  \<open>for p in v\<close>: a list gives its elements, a \<open>dict\<close> its keys, a \<open>str\<close> its characters;
  nothing else is iterable.
\<close>

fun py_iter :: "json \<Rightarrow> exn + json list" where
  "py_iter (JArr xs) = Inr xs"
| "py_iter (JObj kv) = Inr (map (\<lambda>(k, v). JStr k) kv)"
| "py_iter (JStr s) = Inr (map (\<lambda>c. JStr [c]) s)"
| "py_iter v = Inl (not_iterable v)"

section \<open>Reply selection\<close>

definition fallback :: ustr where
  "fallback = str ''I heard you, but I don'' @ [0x27] @ str ''t have a reply yet.''"

text \<open>\<open>(p.get("text") or "").strip()\<close>\<close>

definition payload_text :: "json \<Rightarrow> exn + ustr" where
  "payload_text p =
     (case py_get p (str ''text'') of
        Inl e \<Rightarrow> Inl e
      | Inr t \<Rightarrow> py_strip (py_or t (JStr [])))"

text \<open>
  \<open>next((... for p in payloads if ...), "")\<close>: the generator is consumed up to its first
  value, so an entry after the first non-empty text is never looked at.
\<close>

fun first_text :: "json list \<Rightarrow> exn + ustr" where
  "first_text [] = Inr []"
| "first_text (p # ps) =
     (case payload_text p of
        Inl e \<Rightarrow> Inl e
      | Inr s \<Rightarrow> if s \<noteq> [] then Inr s else first_text ps)"

definition select_reply :: "json \<Rightarrow> exn + ustr" where
  "select_reply data =
     (case py_get data (str ''result'') of
        Inl e \<Rightarrow> Inl e
      | Inr r \<Rightarrow>
     (case py_get (py_or r (JObj [])) (str ''payloads'') of
        Inl e \<Rightarrow> Inl e
      | Inr ps \<Rightarrow>
     (case py_iter (py_or ps (JArr [])) of
        Inl e \<Rightarrow> Inl e
      | Inr payloads \<Rightarrow>
     (case first_text payloads of
        Inl e \<Rightarrow> Inl e
      | Inr reply \<Rightarrow> Inr (if reply = [] then fallback else reply)))))"

section \<open>The turn pipeline\<close>

definition SESSION_ID :: ustr where "SESSION_ID = str ''voice-loop''"
definition VOICE :: ustr where "VOICE = str ''en-US-AnaNeural''"

text \<open>The \<open>CompletedProcess\<close> of the bridge call, with its streams captured as text.\<close>

record proc =
  returncode :: int
  stdout :: ustr
  stderr :: ustr

text \<open>What \<open>input\<close> does: it returns when the user presses Enter, or it raises.\<close>

datatype cue = Enter | CueRaises exn

text \<open>
  What the outside world answers during one iteration of the loop: the outcome of
  \<open>input\<close>, an exception of the recording calls if any, the segment texts of the
  transcription, the bridge's result for a message and session, what \<open>json.loads\<close> makes
  of a text (\<open>None\<close> when it raises an \<open>Exception\<close>, which the inner \<open>try\<close> catches),
  the exit status of \<open>edge-tts\<close> for a voice and a text, the exit status of
  \<open>where ffplay\<close>, and an exception of the player call if any. \<open>Inl\<close> is an exception
  raised by the call; a \<open>KeyboardInterrupt\<close> that arrives during a call is an exception of
  that call. An interrupt that arrives between the calls is outside the model.
\<close>

record world =
  cue :: cue
  capture :: "exn option"
  segments :: "exn + ustr list"
  bridge :: "ustr \<Rightarrow> ustr \<Rightarrow> exn + proc"
  loads :: "ustr \<Rightarrow> json option"
  edge_tts :: "ustr \<Rightarrow> ustr \<Rightarrow> exn + int"
  where_ffplay :: "exn + int"
  player :: "exn option"

text \<open>
  The effects of the loop, in order. \<open>Print\<close> holds the arguments of one \<open>print\<close> call;
  \<open>PrintTooShort t\<close> is \<open>print(f"Too short, skipping: {t!r}")\<close>.
\<close>

datatype event =
    Input ustr
  | Print "ustr list"
  | PrintTooShort ustr
  | LoadModel
  | RecordMic
  | Transcribe
  | AskMina ustr ustr
  | EdgeTts ustr ustr ustr
  | WhereFfplay
  | Ffplay ustr
  | StartProcess ustr

text \<open>
  How an iteration ends: with \<open>continue\<close> or the end of the body, with \<open>break\<close>, or with
  an exception that leaves the loop.
\<close>

datatype outcome = Continue | Break | Raise exn

definition emit :: "event list \<Rightarrow> event list \<times> outcome \<Rightarrow> event list \<times> outcome" where
  "emit es r = (es @ fst r, snd r)"

text \<open>The handler \<open>except Exception as e\<close>.\<close>

definition unexpected :: "exn \<Rightarrow> event list \<times> outcome" where
  "unexpected e =
     ([Print [str ''Unexpected error: '' @ exn_name e @ str '': '' @ exn_msg e]], Continue)"

text \<open>
  The three \<open>except\<close> clauses of the loop, in their order: \<open>EOFError\<close> and
  \<open>KeyboardInterrupt\<close> print their line and \<open>break\<close>, any other \<open>Exception\<close> is
  reported and the loop goes on, anything else propagates.
\<close>

definition handlers :: "exn \<Rightarrow> event list \<times> outcome" where
  "handlers e =
     (case exn_class e of
        IsEOFError \<Rightarrow> ([Print [[0x0A] @ str ''Input stream closed. Exiting.'']], Break)
      | IsKeyboardInterrupt \<Rightarrow> ([Print [[0x0A] @ str ''Bye.'']], Break)
      | IsException \<Rightarrow> unexpected e
      | IsBaseException \<Rightarrow> ([], Raise e))"

text \<open>\<open>" ".join(...)\<close>\<close>

fun join :: "ustr \<Rightarrow> ustr list \<Rightarrow> ustr" where
  "join sep [] = []"
| "join sep [x] = x"
| "join sep (x # y # r) = x @ sep @ join sep (y # r)"

definition transcribe_audio :: "ustr list \<Rightarrow> ustr" where
  "transcribe_audio segs =
     clean_text (strip (join (str '' '') (map strip (filter (\<lambda>s. s \<noteq> [] \<and> strip s \<noteq> []) segs))))"

text \<open>\<open>text.split()\<close>: the maximal runs of characters that are not whitespace.\<close>

lemma split_measure:
  "dropWhile is_space s \<noteq> [] \<Longrightarrow>
   length (dropWhile (\<lambda>c. \<not> is_space c) (dropWhile is_space s)) < length s"
proof -
  assume ne: "dropWhile is_space s \<noteq> []"
  then obtain x xs where d: "dropWhile is_space s = x # xs" by (cases "dropWhile is_space s") auto
  then have "\<not> is_space x" by (metis hd_dropWhile list.sel(1) ne)
  with d have "length (dropWhile (\<lambda>c. \<not> is_space c) (dropWhile is_space s)) \<le> length xs"
    by (simp add: length_dropWhile_le)
  moreover have "length (x # xs) \<le> length s" using d length_dropWhile_le by metis
  ultimately show ?thesis by simp
qed

function py_split :: "ustr \<Rightarrow> ustr list" where
  "py_split s =
     (let s1 = dropWhile is_space s in
      if s1 = [] then []
      else takeWhile (\<lambda>c. \<not> is_space c) s1 # py_split (dropWhile (\<lambda>c. \<not> is_space c) s1))"
  by pat_completeness auto
termination
  by (relation "measure length") (auto simp: split_measure simp del: dropWhile_eq_Nil_conv)

declare py_split.simps [simp del]

text \<open>The class \<open>[a-zA-Z0-9]\<close>.\<close>

definition ascii_alnum :: "nat \<Rightarrow> bool" where
  "ascii_alnum c = ((0x61 \<le> c \<and> c \<le> 0x7A) \<or> (0x41 \<le> c \<and> c \<le> 0x5A) \<or> (0x30 \<le> c \<and> c \<le> 0x39))"

text \<open>
  The letters of the code points \<open>U+0080\<close> to \<open>U+00FF\<close>: alphanumeric characters
  (\<open>str.isalnum\<close> holds for each) that the class \<open>[a-zA-Z0-9]\<close> does not contain.
\<close>

definition latin1_letter :: "nat \<Rightarrow> bool" where
  "latin1_letter c =
     (c = 0xAA \<or> c = 0xB5 \<or> c = 0xBA \<or> (0xC0 \<le> c \<and> c \<le> 0xFF \<and> c \<noteq> 0xD7 \<and> c \<noteq> 0xF7))"

text \<open>
  The three transcript checks of the loop, in order: the diagnostic of the first one that
  rejects, or \<open>None\<close> when the transcript goes on to the bridge.
\<close>

definition quality_gate :: "ustr \<Rightarrow> event option" where
  "quality_gate text =
     (if text = [] then Some (Print [str ''Didn'' @ [0x27] @ str ''t catch that.''])
      else if \<not> list_ex ascii_alnum text then
        Some (Print [str ''Heard only noise/punctuation, skipping.''])
      else if length (py_split text) < 2 then Some (PrintTooShort text)
      else None)"

text \<open>\<open>proc.stderr[:1200] if proc.stderr else d\<close>\<close>

definition stderr_snippet :: "proc \<Rightarrow> ustr \<Rightarrow> ustr" where
  "stderr_snippet p d = (if stderr p \<noteq> [] then take 1200 (stderr p) else d)"

text \<open>
  \<open>play_audio_windows\<close>: the events of the call and the exception it raises, if any.
  The exit status of the player is not looked at.
\<close>

definition play_audio_windows :: "world \<Rightarrow> ustr \<Rightarrow> event list \<times> exn option" where
  "play_audio_windows w path =
     (case where_ffplay w of
        Inl e \<Rightarrow> ([WhereFfplay], Some e)
      | Inr rc \<Rightarrow>
          (WhereFfplay # (if rc = 0 then [Ffplay path] else [StartProcess path]), player w))"

text \<open>Step 6 of the loop: \<open>spoken = reply[:500]\<close>, the \<open>edge-tts\<close> call, the playback.\<close>

definition synthesize_and_play :: "world \<Rightarrow> ustr \<Rightarrow> event list \<times> outcome" where
  "synthesize_and_play w reply =
     (let spoken = take 500 reply in
      emit [EdgeTts VOICE spoken (str ''reply.mp3'')]
        (case edge_tts w VOICE spoken of
           Inl e \<Rightarrow> handlers e
         | Inr rc \<Rightarrow>
             (case play_audio_windows w (str ''reply.mp3'') of
                (es, None) \<Rightarrow> (es, Continue)
              | (es, Some e) \<Rightarrow> emit es (handlers e))))"

text \<open>Step 5 of the loop: the reply cleaned for the terminal and the synthesis.\<close>

definition normalize_reply :: "ustr \<Rightarrow> exn + ustr" where
  "normalize_reply reply = ascii_ignore (strip_emoji (clean_text reply))"

definition reply_stage :: "world \<Rightarrow> json \<Rightarrow> event list \<times> outcome" where
  "reply_stage w data =
     (case select_reply data of
        Inl e \<Rightarrow> handlers e
      | Inr reply \<Rightarrow>
     (case normalize_reply reply of
        Inl e \<Rightarrow> handlers e
      | Inr reply' \<Rightarrow> emit [Print [str ''Mina:'', reply']] (synthesize_and_play w reply')))"

text \<open>Steps 3 and 4: the bridge call, its three failure checks, the parse.\<close>

definition bridge_stage :: "world \<Rightarrow> ustr \<Rightarrow> event list \<times> outcome" where
  "bridge_stage w text =
     emit [AskMina text SESSION_ID]
       (case bridge w text SESSION_ID of
          Inl e \<Rightarrow> handlers e
        | Inr p \<Rightarrow>
            if returncode p \<noteq> 0 then
              ([Print [str ''WSL/OpenClaw failed:''],
                Print [stderr_snippet p (str ''(no stderr)'')]], Continue)
            else if stdout p = [] then
              ([Print [str ''No stdout from WSL OpenClaw call.''],
                Print [str ''stderr:'', stderr_snippet p (str ''(none)'')]], Continue)
            else
              (case loads w (stdout p) of
                 None \<Rightarrow>
                   ([Print [str ''Could not parse JSON from WSL.''],
                     Print [str ''stdout:'', take 1200 (stdout p)],
                     Print [str ''stderr:'', stderr_snippet p (str ''(none)'')]], Continue)
               | Some data \<Rightarrow> reply_stage w data))"

text \<open>
  One iteration of \<open>while True\<close>: the body of the \<open>try\<close>, with every exception of a
  stage sent through the \<open>except\<close> clauses.
\<close>

definition turn :: "world \<Rightarrow> event list \<times> outcome" where
  "turn w =
     emit [Input ([0x0A] @ str ''Press Enter to speak (Ctrl+C to quit)... '')]
       (case cue w of
          CueRaises e \<Rightarrow> handlers e
        | Enter \<Rightarrow>
            emit [Print [str ''Recording 8s...''], RecordMic]
              (case capture w of
                 Some e \<Rightarrow> handlers e
               | None \<Rightarrow>
                   emit [Print [str ''Transcribing...''], Transcribe]
                     (case segments w of
                        Inl e \<Rightarrow> handlers e
                      | Inr segs \<Rightarrow>
                          (let text = transcribe_audio segs in
                           case quality_gate text of
                             Some d \<Rightarrow> ([d], Continue)
                           | None \<Rightarrow>
                               emit [Print [str ''You:'', text],
                                     Print [str ''Asking Mina via WSL...'']]
                                 (bridge_stage w text)))))"

text \<open>
  The loop over the worlds of successive iterations; it ends at the first \<open>break\<close> or
  uncaught exception. A finite list of worlds gives the trace of that many iterations of
  the unbounded loop.
\<close>

fun main_loop :: "world list \<Rightarrow> event list" where
  "main_loop [] = []"
| "main_loop (w # ws) =
     (case turn w of
        (es, Continue) \<Rightarrow> es @ main_loop ws
      | (es, Break) \<Rightarrow> es
      | (es, Raise e) \<Rightarrow> es)"

definition main :: "world list \<Rightarrow> event list" where
  "main ws =
     [Print [str ''Loading STT model...''], LoadModel, Print [str ''Ready.'']] @ main_loop ws"

section \<open>Shapes of cleaned text\<close>

text \<open>No two adjacent characters are both whitespace.\<close>

fun no_ws_run :: "ustr \<Rightarrow> bool" where
  "no_ws_run [] = True"
| "no_ws_run [x] = True"
| "no_ws_run (x # y # r) = (\<not> (is_space x \<and> is_space y) \<and> no_ws_run (y # r))"

text \<open>
  What every result of \<open>clean_text\<close> looks like: none of the removed or replaced
  characters, no whitespace but the space, no run of whitespace, none at either end.
\<close>

definition tidy :: "ustr \<Rightarrow> bool" where
  "tidy s = ((\<forall>c\<in>set s. \<not> md_char c \<and> c \<noteq> 0x2014 \<and> c \<noteq> 0x2013 \<and> (is_space c \<longrightarrow> c = 0x20))
     \<and> no_ws_run s \<and> (s \<noteq> [] \<longrightarrow> \<not> is_space (hd s) \<and> \<not> is_space (last s)))"

section \<open>The expected shape of a response\<close>

text \<open>
  The responses on which reply selection raises nothing: an object; its \<open>result\<close> absent,
  false as a truth value, or an object; the \<open>payloads\<close> of that absent, false as a truth
  value, or a list; each entry of the list an object whose \<open>text\<close> is absent, false as a
  truth value, or a string.
\<close>

definition payload_shaped :: "json \<Rightarrow> bool" where
  "payload_shaped p =
     (case p of
        JObj kv \<Rightarrow>
          (case map_of kv (str ''text'') of
             None \<Rightarrow> True
           | Some (JStr s) \<Rightarrow> True
           | Some t \<Rightarrow> \<not> truthy t)
      | _ \<Rightarrow> False)"

definition payloads_shaped :: "json \<Rightarrow> bool" where
  "payloads_shaped ps =
     (case ps of JArr xs \<Rightarrow> list_all payload_shaped xs | _ \<Rightarrow> \<not> truthy ps)"

definition result_shaped :: "json \<Rightarrow> bool" where
  "result_shaped r =
     (case r of
        JObj kv \<Rightarrow>
          (case map_of kv (str ''payloads'') of None \<Rightarrow> True | Some ps \<Rightarrow> payloads_shaped ps)
      | _ \<Rightarrow> \<not> truthy r)"

definition reply_shaped :: "json \<Rightarrow> bool" where
  "reply_shaped data =
     (case data of
        JObj kv \<Rightarrow>
          (case map_of kv (str ''result'') of None \<Rightarrow> True | Some r \<Rightarrow> result_shaped r)
      | _ \<Rightarrow> False)"

text \<open>
  Reply selection as the specification words it: the payload list is \<open>result.payloads\<close>,
  empty when a key is absent; the text of an entry is its \<open>text\<close> field, empty when absent;
  the reply is the first trimmed text that is not empty, else the fallback string.
\<close>

definition spec_payloads :: "json \<Rightarrow> json list" where
  "spec_payloads data =
     (case data of
        JObj kv \<Rightarrow>
          (case map_of kv (str ''result'') of
             Some (JObj kv') \<Rightarrow>
               (case map_of kv' (str ''payloads'') of Some (JArr xs) \<Rightarrow> xs | _ \<Rightarrow> [])
           | _ \<Rightarrow> [])
      | _ \<Rightarrow> [])"

definition spec_entry_text :: "json \<Rightarrow> ustr" where
  "spec_entry_text p =
     (case p of
        JObj kv \<Rightarrow> (case map_of kv (str ''text'') of Some (JStr s) \<Rightarrow> s | _ \<Rightarrow> [])
      | _ \<Rightarrow> [])"

definition spec_reply :: "json \<Rightarrow> ustr" where
  "spec_reply data =
     (case find (\<lambda>s. s \<noteq> []) (map (\<lambda>p. strip (spec_entry_text p)) (spec_payloads data)) of
        Some s \<Rightarrow> s
      | None \<Rightarrow> fallback)"

text \<open>The response with the payload list \<open>ps\<close>, and the payload entry with the text \<open>t\<close>.\<close>

definition payloads_json :: "json list \<Rightarrow> json" where
  "payloads_json ps = JObj [(str ''result'', JObj [(str ''payloads'', JArr ps)])]"

definition text_entry :: "json \<Rightarrow> json" where
  "text_entry t = JObj [(str ''text'', t)]"

section \<open>Observing a turn\<close>

text \<open>
  The events that are a bridge call, a synthesis or playback call, or a synthesis call.
\<close>

fun is_bridge :: "event \<Rightarrow> bool" where
  "is_bridge (AskMina m s) = True"
| "is_bridge e = False"

fun is_speech :: "event \<Rightarrow> bool" where
  "is_speech (EdgeTts v t f) = True"
| "is_speech WhereFfplay = True"
| "is_speech (Ffplay f) = True"
| "is_speech (StartProcess f) = True"
| "is_speech e = False"

fun is_playback :: "event \<Rightarrow> bool" where
  "is_playback WhereFfplay = True"
| "is_playback (Ffplay f) = True"
| "is_playback (StartProcess f) = True"
| "is_playback e = False"

fun is_tts :: "event \<Rightarrow> bool" where
  "is_tts (EdgeTts v t f) = True"
| "is_tts e = False"

text \<open>The events of a turn whose transcript passed the gate, up to and with the bridge call.\<close>

definition turn_prefix :: "ustr \<Rightarrow> event list" where
  "turn_prefix text =
     [Input ([0x0A] @ str ''Press Enter to speak (Ctrl+C to quit)... ''),
      Print [str ''Recording 8s...''], RecordMic,
      Print [str ''Transcribing...''], Transcribe,
      Print [str ''You:'', text], Print [str ''Asking Mina via WSL...''],
      AskMina text SESSION_ID]"

text \<open>
  Example worlds. In each the user presses Enter and the recording succeeds. In
  \<open>world_play t tts wh pl\<close> the segments heard are \<open>" turn on"\<close> and \<open>"lights "\<close>, the
  bridge prints a response with the one payload text \<open>t\<close>, \<open>edge-tts\<close> ends as \<open>tts\<close>
  says, \<open>where ffplay\<close> as \<open>wh\<close> and the player as \<open>pl\<close>; \<open>world_reply t tts\<close> is the
  one where \<open>ffplay\<close> is found and plays. In \<open>world_bridge p\<close> the bridge call ends as \<open>p\<close>
  and nothing parses as JSON; in \<open>world_heard segs\<close> the segments heard are \<open>segs\<close>.
\<close>

definition reply_json_text :: "ustr \<Rightarrow> ustr" where
  \<open>reply_json_text t = str ''{"result":{"payloads":[{"text":"'' @ t @ str ''"}]}}''\<close>

definition reply_json :: "ustr \<Rightarrow> json" where
  "reply_json t =
     JObj [(str ''result'', JObj [(str ''payloads'', JArr [JObj [(str ''text'', JStr t)]])])]"

definition world_play :: "ustr \<Rightarrow> exn + int \<Rightarrow> exn + int \<Rightarrow> exn option \<Rightarrow> world" where
  "world_play t tts wh pl =
     \<lparr>cue = Enter, capture = None, segments = Inr [str '' turn on'', str ''lights ''],
      bridge = (\<lambda>m s. Inr \<lparr>returncode = 0, stdout = reply_json_text t, stderr = []\<rparr>),
      loads = (\<lambda>x. if x = reply_json_text t then Some (reply_json t) else None),
      edge_tts = (\<lambda>v x. tts), where_ffplay = wh, player = pl\<rparr>"

definition world_reply :: "ustr \<Rightarrow> exn + int \<Rightarrow> world" where
  "world_reply t tts = world_play t tts (Inr 0) None"

definition world_bridge :: "proc \<Rightarrow> world" where
  "world_bridge p =
     \<lparr>cue = Enter, capture = None, segments = Inr [str '' turn on'', str ''lights ''],
      bridge = (\<lambda>m s. Inr p), loads = (\<lambda>x. None),
      edge_tts = (\<lambda>v x. Inr 0), where_ffplay = Inr 0, player = None\<rparr>"

definition world_heard :: "ustr list \<Rightarrow> world" where
  "world_heard segs =
     \<lparr>cue = Enter, capture = None, segments = Inr segs,
      bridge = (\<lambda>m s. Inr \<lparr>returncode = 1, stdout = [], stderr = []\<rparr>), loads = (\<lambda>x. None),
      edge_tts = (\<lambda>v x. Inr 0), where_ffplay = Inr 0, player = None\<rparr>"

section \<open>Properties of the helpers\<close>

lemma strip_emoji_filter:
  "strip_emoji s = filter (\<lambda>c. \<not> (0x10000 \<le> c \<and> c \<le> 0x10FFFF)) s"
  by (induction s) (simp_all add: strip_emoji_def)

lemma is_space_simps [simp]:
  "is_space 0x20" "is_space 0x0A" "\<not> is_space 0x2C" "\<not> is_space 0x5B" "\<not> is_space 0x5D" "\<not> is_space 0x5F"
  by (simp_all add: is_space_def)

lemma lower_ascii_underscore: "lower_ascii c = 0x5F \<Longrightarrow> c = 0x5F"
  by (auto simp: lower_ascii_def split: if_splits)

lemma str_reply_to: "str ''reply_to'' = [0x72, 0x65, 0x70, 0x6C, 0x79, 0x5F, 0x74, 0x6F]"
  by (simp add: str_def)

lemma match_tag_underscore:
  assumes "match_tag s = Some r" shows "0x5F \<in> set s"
proof -
  from assms obtain a b t where s: "s = a # b # t"
    by (auto simp: match_tag_def split: list.splits)
  define r1 where "r1 = dropWhile is_space t"
  from assms s have m: "map lower_ascii (take 8 r1) = str ''reply_to''"
    by (auto simp: match_tag_def Let_def r1_def split: if_splits)
  then have "0x5F \<in> set (map lower_ascii (take 8 r1))"
    by (simp add: str_reply_to)
  then obtain c where c: "c \<in> set (take 8 r1)" "lower_ascii c = 0x5F"
    by auto
  then have "c = 0x5F" by (simp add: lower_ascii_underscore)
  with c have "0x5F \<in> set r1" by (auto dest: in_set_takeD)
  then have "0x5F \<in> set t" unfolding r1_def by (auto dest: set_dropWhileD)
  with s show ?thesis by simp
qed

lemma sub_tags_id: "0x5F \<notin> set s \<Longrightarrow> sub_tags s = s"
proof (induction s)
  case Nil then show ?case by simp
next
  case (Cons x xs)
  have "match_tag (x # xs) = None"
    using Cons.prems match_tag_underscore[of "x # xs"] by (cases "match_tag (x # xs)") auto
  with Cons show ?case by simp
qed

lemma sub_md_filter: "sub_md t = filter (\<lambda>c. \<not> md_char c) t"
  by (induction t) (simp_all add: sub_md_def)

lemma replace_chr_id: "old \<notin> set t \<Longrightarrow> replace_chr old new t = t"
  by (induction t) (auto simp: replace_chr_def)

lemma sub_ws_hd: "s \<noteq> [] \<Longrightarrow> \<not> is_space (hd s) \<Longrightarrow> sub_ws s \<noteq> [] \<and> hd (sub_ws s) = hd s"
  by (cases s) auto

lemma dropWhile_hd: "dropWhile P xs \<noteq> [] \<Longrightarrow> \<not> P (hd (dropWhile P xs))"
  by (simp add: hd_dropWhile)

lemma no_ws_run_sub_ws: "no_ws_run (sub_ws s)"
proof (induction s rule: sub_ws.induct)
  case 1 show ?case by simp
next
  case (2 x xs)
  show ?case
  proof (cases "is_space x")
    case True
    let ?d = "dropWhile is_space xs"
    show ?thesis
    proof (cases "?d = []")
      case True
      then have "sub_ws (x # xs) = [0x20]" using \<open>is_space x\<close>
        by (simp del: dropWhile_eq_Nil_conv)
      then show ?thesis by simp
    next
      case False
      then have "\<not> is_space (hd ?d)" by (rule dropWhile_hd)
      with False have h: "sub_ws ?d \<noteq> []" "hd (sub_ws ?d) = hd ?d" using sub_ws_hd by auto
      then obtain y r where yr: "sub_ws ?d = y # r" by (cases "sub_ws ?d") auto
      with h \<open>\<not> is_space (hd ?d)\<close> have "\<not> is_space y" by simp
      with yr 2(1)[OF True] True show ?thesis by simp
    qed
  next
    case False
    with 2(2) show ?thesis by (cases "sub_ws xs") auto
  qed
qed

lemma set_sub_ws: "set (sub_ws s) \<subseteq> {c \<in> set s. \<not> is_space c} \<union> {0x20}"
proof (induction s rule: sub_ws.induct)
  case 1 show ?case by simp
next
  case (2 x xs)
  show ?case
  proof (cases "is_space x")
    case True
    with 2(1) show ?thesis by (auto dest: set_dropWhileD)
  next
    case False
    with 2(2) show ?thesis by auto
  qed
qed

lemma sub_ws_id: "no_ws_run s \<Longrightarrow> \<forall>c\<in>set s. is_space c \<longrightarrow> c = 0x20 \<Longrightarrow> sub_ws s = s"
proof (induction s rule: no_ws_run.induct)
  case 1 then show ?case by simp
next
  case (2 x) then show ?case by auto
next
  case (3 x y r)
  then show ?case by (cases "is_space x") auto
qed

lemma no_ws_run_appendD: "no_ws_run (xs @ ys) \<Longrightarrow> no_ws_run xs \<and> no_ws_run ys"
proof (induction xs rule: no_ws_run.induct)
  case 1 then show ?case by simp
next
  case (2 x) then show ?case by (cases ys) auto
next
  case (3 x y r) then show ?case by simp
qed

lemma no_ws_run_nth:
  "no_ws_run s \<Longrightarrow> Suc i < length s \<Longrightarrow> \<not> (is_space (s ! i) \<and> is_space (s ! Suc i))"
proof (induction s arbitrary: i rule: no_ws_run.induct)
  case (3 x y r)
  then show ?case by (cases i) auto
qed simp_all

lemma strip_prefix_suffix: "\<exists>u v. s = u @ strip s @ v"
proof -
  let ?d = "dropWhile is_space s"
  have "s = takeWhile is_space s @ ?d" by simp
  moreover have "rev ?d = takeWhile is_space (rev ?d) @ dropWhile is_space (rev ?d)" by simp
  then have "?d = strip s @ rev (takeWhile is_space (rev ?d))"
    unfolding strip_def by (metis rev_append rev_rev_ident)
  ultimately show ?thesis by metis
qed

lemma set_strip: "set (strip s) \<subseteq> set s"
  using strip_prefix_suffix[of s] by (metis Un_iff set_append subsetI)

lemma no_ws_run_strip: "no_ws_run s \<Longrightarrow> no_ws_run (strip s)"
  using strip_prefix_suffix[of s] by (metis no_ws_run_appendD)

lemma strip_ends: "strip s \<noteq> [] \<Longrightarrow> \<not> is_space (hd (strip s)) \<and> \<not> is_space (last (strip s))"
proof -
  assume ne: "strip s \<noteq> []"
  let ?d = "dropWhile is_space s"
  let ?e = "dropWhile is_space (rev ?d)"
  from ne have e: "?e \<noteq> []" by (simp add: strip_def)
  then have d: "?d \<noteq> []" by (auto dest: set_dropWhileD)
  have "last (strip s) = hd ?e" using e by (simp add: strip_def last_rev)
  then have l: "\<not> is_space (last (strip s))" using e by (simp add: hd_dropWhile)
  have hd: "\<not> is_space (hd ?d)" using d by (simp add: hd_dropWhile)
  obtain v where uv: "?d = strip s @ v"
    by (metis rev_append rev_rev_ident strip_def takeWhile_dropWhile_id)
  with ne have "hd (strip s) = hd ?d" by simp
  with hd l show ?thesis by simp
qed

lemma strip_id: "s = [] \<or> (\<not> is_space (hd s) \<and> \<not> is_space (last s)) \<Longrightarrow> strip s = s"
proof (cases s)
  case Nil then show ?thesis by (simp add: strip_def)
next
  case (Cons x xs)
  assume "s = [] \<or> (\<not> is_space (hd s) \<and> \<not> is_space (last s))"
  with Cons have h: "\<not> is_space x" "\<not> is_space (last s)" by auto
  then have "dropWhile is_space s = s" using Cons by simp
  moreover have "dropWhile is_space (rev s) = rev s"
    using h Cons by (cases "rev s") (auto simp: hd_rev[symmetric] dest: arg_cong[where f=hd])
  ultimately show ?thesis by (simp add: strip_def)
qed

lemma replace_stage:
  "replace_chr 0x2013 (str '', '') (replace_chr 0x2014 (str '', '') (replace_chr 0x0A (str '' '') t))
   = concat (map (\<lambda>c. if c = 0x0A then [0x20] else if c = 0x2014 \<or> c = 0x2013 then [0x2C, 0x20] else [c]) t)"
  by (induction t) (simp_all add: replace_chr_def str_def)

lemma clean_text_stages:
  "clean_text t = strip (sub_ws (concat (map (\<lambda>c. if c = 0x0A then [0x20] else if c = 0x2014 \<or> c = 0x2013 then [0x2C, 0x20] else [c])
       (filter (\<lambda>c. \<not> md_char c) (sub_tags t)))))"
  by (simp add: clean_text_def Let_def replace_stage sub_md_filter)

lemma md_char_simps [simp]: "\<not> md_char 0x20" "\<not> md_char 0x2C" "md_char 0x5F" "\<not> md_char 0x2013" "\<not> md_char 0x2014"
  by (simp_all add: md_char_def)

lemma tidy_clean_text: "tidy (clean_text t)"
proof -
  define m where "m = concat (map (\<lambda>c. if c = 0x0A then [0x20] else if c = 0x2014 \<or> c = 0x2013 then [0x2C, 0x20] else [c])
       (filter (\<lambda>c. \<not> md_char c) (sub_tags t)))"
  have ct: "clean_text t = strip (sub_ws m)" by (simp add: clean_text_stages m_def)
  have m: "\<forall>c\<in>set m. \<not> md_char c \<and> c \<noteq> 0x2014 \<and> c \<noteq> (0x2013::nat)"
    by (auto simp: m_def split: if_splits)
  have "\<forall>c\<in>set (sub_ws m). \<not> md_char c \<and> c \<noteq> 0x2014 \<and> c \<noteq> 0x2013 \<and> (is_space c \<longrightarrow> c = 0x20)"
    using set_sub_ws[of m] m by auto
  then have 1: "\<forall>c\<in>set (clean_text t). \<not> md_char c \<and> c \<noteq> 0x2014 \<and> c \<noteq> 0x2013 \<and> (is_space c \<longrightarrow> c = 0x20)"
    unfolding ct using set_strip[of "sub_ws m"] by blast
  have 2: "no_ws_run (clean_text t)"
    unfolding ct by (rule no_ws_run_strip) (rule no_ws_run_sub_ws)
  have 3: "clean_text t \<noteq> [] \<longrightarrow> \<not> is_space (hd (clean_text t)) \<and> \<not> is_space (last (clean_text t))"
    unfolding ct using strip_ends by blast
  from 1 2 3 show ?thesis unfolding tidy_def by blast
qed

lemma clean_text_tidy_id: assumes "tidy s" shows "clean_text s = s"
proof -
  from assms have a: "\<forall>c\<in>set s. \<not> md_char c \<and> c \<noteq> 0x2014 \<and> c \<noteq> 0x2013 \<and> (is_space c \<longrightarrow> c = 0x20)"
    and b: "no_ws_run s" and c: "s = [] \<or> (\<not> is_space (hd s) \<and> \<not> is_space (last s))"
    unfolding tidy_def by blast+
  from a have "0x5F \<notin> set s" by auto
  then have 1: "sub_tags s = s" by (rule sub_tags_id)
  from a have 2: "sub_md s = s" by (simp add: sub_md_filter)
  have "0x0A \<notin> set s"
  proof
    assume "0x0A \<in> set s"
    with a have "is_space 0x0A \<longrightarrow> (0x0A::nat) = 0x20" by blast
    then show False by simp
  qed
  then have 3: "replace_chr 0x0A (str '' '') s = s" by (rule replace_chr_id)
  from a have "0x2014 \<notin> set s" "0x2013 \<notin> set s" by auto
  then have 4: "replace_chr 0x2014 (str '', '') s = s" "replace_chr 0x2013 (str '', '') s = s"
    by (simp_all add: replace_chr_id)
  from a b have 5: "sub_ws s = s" by (simp add: sub_ws_id)
  from c have 6: "strip s = s" by (rule strip_id)
  show ?thesis by (simp add: clean_text_def Let_def 1 2 3 4 5 6)
qed

lemma match_tag_not_open: "x \<noteq> 0x5B \<Longrightarrow> match_tag (x # xs) = None"
  by (simp add: match_tag_def split: list.splits)

lemma sub_tags_pre: "0x5B \<notin> set pre \<Longrightarrow> sub_tags (pre @ s) = pre @ sub_tags s"
  by (induction pre) (simp_all add: match_tag_not_open)

lemma match_tag_tag:
  assumes ws: "list_all is_space ws" and nm: "map lower_ascii name = str ''reply_to''"
    and body: "0x5D \<notin> set body"
  shows "match_tag ([0x5B, 0x5B] @ ws @ name @ body @ [0x5D, 0x5D] @ post) = Some post"
proof -
  let ?rest = "body @ [0x5D, 0x5D] @ post"
  from arg_cong[OF nm, of length] have len: "length name = 8" by (simp add: str_reply_to)
  then obtain n ns where name: "name = n # ns" by (cases name) auto
  with nm have "lower_ascii n = 0x72" by (simp add: str_reply_to)
  then have "\<not> is_space n" by (auto simp: lower_ascii_def is_space_def split: if_splits)
  with ws name have 1: "dropWhile is_space (ws @ name @ ?rest) = name @ ?rest"
    by (simp add: list_all_iff)
  from len have 2: "take 8 (name @ ?rest) = name" "drop 8 (name @ ?rest) = ?rest" by simp_all
  from body have "\<forall>c\<in>set body. c \<noteq> 0x5D" by auto
  then have 3: "dropWhile (\<lambda>c. c \<noteq> 0x5D) ?rest = 0x5D # 0x5D # post"
    by simp
  show ?thesis
    by (simp add: match_tag_def Let_def 1[simplified] 2[simplified] 3[simplified] nm)
qed

lemma clean_text_tag:
  assumes "list_all is_space ws" "map lower_ascii name = str ''reply_to''" "0x5D \<notin> set body" "0x5B \<notin> set pre"
  shows "clean_text (pre @ [0x5B, 0x5B] @ ws @ name @ body @ [0x5D, 0x5D] @ post) = clean_text (pre @ post)"
proof -
  have "sub_tags (pre @ [0x5B, 0x5B] @ ws @ name @ body @ [0x5D, 0x5D] @ post) = pre @ sub_tags post"
    using match_tag_tag[OF assms(1-3), of post] assms(4) by (simp add: sub_tags_pre)
  moreover have "sub_tags (pre @ post) = pre @ sub_tags post" using assms(4) by (rule sub_tags_pre)
  ultimately show ?thesis by (simp add: clean_text_def)
qed

lemma lower_ascii_cases:
  "lower_ascii c = 0x72 \<longleftrightarrow> c = 0x72 \<or> c = 0x52"
  "lower_ascii c = 0x65 \<longleftrightarrow> c = 0x65 \<or> c = 0x45"
  "lower_ascii c = 0x70 \<longleftrightarrow> c = 0x70 \<or> c = 0x50"
  "lower_ascii c = 0x6C \<longleftrightarrow> c = 0x6C \<or> c = 0x4C"
  "lower_ascii c = 0x79 \<longleftrightarrow> c = 0x79 \<or> c = 0x59"
  "lower_ascii c = 0x5F \<longleftrightarrow> c = 0x5F"
  "lower_ascii c = 0x74 \<longleftrightarrow> c = 0x74 \<or> c = 0x54"
  "lower_ascii c = 0x6F \<longleftrightarrow> c = 0x6F \<or> c = 0x4F"
  by (auto simp: lower_ascii_def)

lemma any_case_iff:
  "list_all2 (\<lambda>c p. c = fst p \<or> c = snd p) name (zip (str ''reply_to'') (str ''REPLY_TO''))
   \<longleftrightarrow> map lower_ascii name = str ''reply_to''"
  by (simp add: str_def list_all2_Cons2 map_eq_Cons_conv lower_ascii_cases)

lemma match_tag_parts:
  assumes "match_tag s = Some r"
  shows "\<exists>ws name body. s = [0x5B, 0x5B] @ ws @ name @ body @ [0x5D, 0x5D] @ r
           \<and> list_all is_space ws \<and> map lower_ascii name = str ''reply_to'' \<and> 0x5D \<notin> set body"
proof -
  from assms obtain a b t where s: "s = a # b # t"
    by (auto simp: match_tag_def split: list.splits)
  define r1 where "r1 = dropWhile is_space t"
  define r2 where "r2 = dropWhile (\<lambda>c. c \<noteq> 0x5D) (drop 8 r1)"
  from assms s have ab: "a = 0x5B" "b = 0x5B" and nm: "map lower_ascii (take 8 r1) = str ''reply_to''"
    by (auto simp: match_tag_def Let_def r1_def split: if_splits)
  from assms s obtain c where r2: "r2 = c # 0x5D # r"
    by (auto simp: match_tag_def Let_def r1_def r2_def split: if_splits list.splits)
  have "c = hd r2" using r2 by simp
  moreover have "\<not> (hd r2 \<noteq> 0x5D)" unfolding r2_def using r2 r2_def hd_dropWhile [of "\<lambda>c. c \<noteq> 0x5D" "drop 8 r1"] by auto
  ultimately have c: "c = 0x5D" by simp
  have t: "t = takeWhile is_space t @ r1" by (simp add: r1_def)
  have r1: "r1 = take 8 r1 @ drop 8 r1" by simp
  have d: "drop 8 r1 = takeWhile (\<lambda>c. c \<noteq> 0x5D) (drop 8 r1) @ r2" by (simp add: r2_def)
  have "s = [0x5B, 0x5B] @ takeWhile is_space t @ take 8 r1 @ takeWhile (\<lambda>c. c \<noteq> 0x5D) (drop 8 r1)
            @ [0x5D, 0x5D] @ r"
    using s ab t r1 d r2 c by (metis append_Cons append_Nil)
  moreover have "list_all is_space (takeWhile is_space t)"
    by (simp add: list_all_iff) (meson set_takeWhileD)
  moreover have "0x5D \<notin> set (takeWhile (\<lambda>c. c \<noteq> 0x5D) (drop 8 r1))"
    using set_takeWhileD [of "0x5D" "\<lambda>c. c \<noteq> 0x5D" "drop 8 r1"] by blast
  ultimately show ?thesis using nm by blast
qed

lemma match_tag_iff:
  "match_tag s = Some r \<longleftrightarrow>
     (\<exists>ws name body. s = [0x5B, 0x5B] @ ws @ name @ body @ [0x5D, 0x5D] @ r
        \<and> list_all is_space ws
        \<and> list_all2 (\<lambda>c p. c = fst p \<or> c = snd p) name (zip (str ''reply_to'') (str ''REPLY_TO''))
        \<and> 0x5D \<notin> set body)"
  unfolding any_case_iff using match_tag_parts match_tag_tag by blast

lemma sub_tags_none: "\<forall>i. match_tag (drop i t) = None \<Longrightarrow> sub_tags t = t"
proof (induction t)
  case Nil then show ?case by simp
next
  case (Cons x xs)
  from Cons.prems have "match_tag (drop 0 (x # xs)) = None" by blast
  then have 0: "match_tag (x # xs) = None" by simp
  have "\<forall>i. match_tag (drop i xs) = None"
  proof
    fix i from Cons.prems have "match_tag (drop (Suc i) (x # xs)) = None" by blast
    then show "match_tag (drop i xs) = None" by simp
  qed
  with Cons.IH 0 show ?case by simp
qed

lemma sub_tags_leftmost:
  "\<forall>i<length pre. match_tag (drop i (pre @ s)) = None \<Longrightarrow> match_tag s = Some r \<Longrightarrow>
   sub_tags (pre @ s) = pre @ sub_tags r"
proof (induction pre)
  case Nil
  then show ?case by (cases s) (simp_all add: match_tag_def)
next
  case (Cons x xs)
  from Cons.prems(1) have "match_tag (drop 0 ((x # xs) @ s)) = None" by (metis length_greater_0_conv list.distinct(1))
  then have 0: "match_tag (x # xs @ s) = None" by simp
  have "\<forall>i<length xs. match_tag (drop i (xs @ s)) = None"
  proof (intro allI impI)
    fix i assume "i < length xs"
    then have "Suc i < length (x # xs)" by simp
    with Cons.prems(1) have "match_tag (drop (Suc i) ((x # xs) @ s)) = None" by blast
    then show "match_tag (drop i (xs @ s)) = None" by simp
  qed
  with Cons.IH Cons.prems(2) 0 show ?case by simp
qed

lemma no_open_no_match: "0x5B \<notin> set t \<Longrightarrow> match_tag (drop i t) = None"
proof (cases "drop i t")
  case Nil then show ?thesis by (simp add: match_tag_def)
next
  case (Cons x xs)
  assume "0x5B \<notin> set t"
  then have "0x5B \<notin> set (drop i t)" by (auto dest: in_set_dropD)
  with Cons have "x \<noteq> 0x5B" by auto
  with Cons show ?thesis by (simp add: match_tag_not_open)
qed

lemmas text_eval = clean_text_def str_def match_tag_def sub_md_def replace_chr_def strip_def
  is_space_def md_char_def lower_ascii_def strip_emoji_def ascii_ignore_def
  encode_ascii_ignore_def decode_ascii_def normalize_reply_def wf_str_def

lemma encode_ascii_ignore_filter: "encode_ascii_ignore s = filter (\<lambda>c. c < 0x80) s"
  by (induction s) (simp_all add: encode_ascii_ignore_def)

lemma ascii_ignore_filter: "ascii_ignore s = Inr (filter (\<lambda>c. c < 0x80) s)"
  by (simp add: ascii_ignore_def decode_ascii_def encode_ascii_ignore_filter list_all_iff)

section \<open>Properties of the pipeline\<close>

lemma py_split_Nil: "py_split [] = []"
  by (simp add: py_split.simps)

lemma py_split_space: "is_space x \<Longrightarrow> py_split (x # xs) = py_split xs"
  by (subst py_split.simps, subst (2) py_split.simps) simp

lemma py_split_word:
  "\<not> is_space x \<Longrightarrow>
   py_split (x # xs) = (x # takeWhile (\<lambda>c. \<not> is_space c) xs) # py_split (dropWhile (\<lambda>c. \<not> is_space c) xs)"
  by (subst py_split.simps) simp

lemmas gate_eval = quality_gate_def ascii_alnum_def py_split_Nil py_split_space py_split_word

lemma gate_examples:
  "quality_gate [] \<noteq> None" "quality_gate (str ''???'') \<noteq> None" "quality_gate (str ''ok'') \<noteq> None"
  "quality_gate (str ''turn on lights'') = None"
  by (simp_all add: gate_eval str_def is_space_def)

lemma example_transcript: "transcribe_audio [str '' turn on'', str ''lights ''] = str ''turn on lights''"
  by (simp add: transcribe_audio_def text_eval)

lemma example_gate: "quality_gate (str ''turn on lights'') = None"
  by (simp add: gate_eval str_def is_space_def)

lemma turn_at_gate:
  assumes "cue w = Enter" "capture w = None" "segments w = Inr segs"
  shows "turn w = emit [Input ([0x0A] @ str ''Press Enter to speak (Ctrl+C to quit)... ''),
                        Print [str ''Recording 8s...''], RecordMic,
                        Print [str ''Transcribing...''], Transcribe]
                    (case quality_gate (transcribe_audio segs) of
                       Some d \<Rightarrow> ([d], Continue)
                     | None \<Rightarrow> emit [Print [str ''You:'', transcribe_audio segs],
                                     Print [str ''Asking Mina via WSL...'']]
                                 (bridge_stage w (transcribe_audio segs)))"
  using assms by (simp add: turn_def emit_def Let_def)

lemma gate_diag_quiet: "quality_gate t = Some d \<Longrightarrow> \<not> is_bridge d \<and> \<not> is_speech d"
  by (auto simp: quality_gate_def split: if_splits)

lemma turn_at_bridge:
  assumes "cue w = Enter" "capture w = None" "segments w = Inr segs"
    "quality_gate (transcribe_audio segs) = None"
  shows "turn w = (turn_prefix (transcribe_audio segs) @
                     fst (case bridge w (transcribe_audio segs) SESSION_ID of
          Inl e \<Rightarrow> handlers e
        | Inr p \<Rightarrow>
            if returncode p \<noteq> 0 then
              ([Print [str ''WSL/OpenClaw failed:''],
                Print [stderr_snippet p (str ''(no stderr)'')]], Continue)
            else if stdout p = [] then
              ([Print [str ''No stdout from WSL OpenClaw call.''],
                Print [str ''stderr:'', stderr_snippet p (str ''(none)'')]], Continue)
            else
              (case loads w (stdout p) of
                 None \<Rightarrow>
                   ([Print [str ''Could not parse JSON from WSL.''],
                     Print [str ''stdout:'', take 1200 (stdout p)],
                     Print [str ''stderr:'', stderr_snippet p (str ''(none)'')]], Continue)
               | Some data \<Rightarrow> reply_stage w data)),
                   snd (case bridge w (transcribe_audio segs) SESSION_ID of
          Inl e \<Rightarrow> handlers e
        | Inr p \<Rightarrow>
            if returncode p \<noteq> 0 then
              ([Print [str ''WSL/OpenClaw failed:''],
                Print [stderr_snippet p (str ''(no stderr)'')]], Continue)
            else if stdout p = [] then
              ([Print [str ''No stdout from WSL OpenClaw call.''],
                Print [str ''stderr:'', stderr_snippet p (str ''(none)'')]], Continue)
            else
              (case loads w (stdout p) of
                 None \<Rightarrow>
                   ([Print [str ''Could not parse JSON from WSL.''],
                     Print [str ''stdout:'', take 1200 (stdout p)],
                     Print [str ''stderr:'', stderr_snippet p (str ''(none)'')]], Continue)
               | Some data \<Rightarrow> reply_stage w data)))"
  using assms by (simp add: turn_at_gate emit_def bridge_stage_def turn_prefix_def)

lemma turn_prefix_quiet: "\<forall>e\<in>set (turn_prefix t). \<not> is_speech e"
  by (simp add: turn_prefix_def)

lemma main_loop_continue: "snd (turn w) = Continue \<Longrightarrow> main_loop (w # ws) = fst (turn w) @ main_loop ws"
  by (cases "turn w") simp

lemma turn_at_reply:
  assumes "cue w = Enter" "capture w = None" "segments w = Inr segs"
    "quality_gate (transcribe_audio segs) = None"
    "bridge w (transcribe_audio segs) SESSION_ID = Inr p"
    "returncode p = 0" "stdout p \<noteq> []" "loads w (stdout p) = Some data"
    "select_reply data = Inr r" "normalize_reply r = Inr n"
  shows "turn w = emit (turn_prefix (transcribe_audio segs) @ [Print [str ''Mina:'', n],
                     EdgeTts VOICE (take 500 n) (str ''reply.mp3'')])
                    (case edge_tts w VOICE (take 500 n) of
                       Inl e \<Rightarrow> handlers e
                     | Inr rc \<Rightarrow>
                         (case play_audio_windows w (str ''reply.mp3'') of
                            (es, None) \<Rightarrow> (es, Continue)
                          | (es, Some e) \<Rightarrow> emit es (handlers e)))"
  using assms
  by (simp add: turn_at_bridge reply_stage_def synthesize_and_play_def emit_def Let_def)

lemma handlers_quiet: "\<forall>ev\<in>set (fst (handlers e)). \<not> is_tts ev \<and> \<not> is_playback ev"
  by (cases "exn_class e") (simp_all add: handlers_def unexpected_def)

lemma play_audio_windows_no_tts: "\<forall>ev\<in>set (fst (play_audio_windows w f)). \<not> is_tts ev"
  by (simp add: play_audio_windows_def split: sum.splits)

lemma after_tts_no_tts:
  "filter is_tts (fst (case edge_tts w VOICE t of
                       Inl e \<Rightarrow> handlers e
                     | Inr rc \<Rightarrow>
                         (case play_audio_windows w f of
                            (es, None) \<Rightarrow> (es, Continue)
                          | (es, Some e) \<Rightarrow> emit es (handlers e)))) = []"
  using handlers_quiet play_audio_windows_no_tts [of w f]
  by (auto simp: filter_empty_conv emit_def split: sum.splits prod.splits option.splits)

lemma turn_prefix_no_tts: "filter is_tts (turn_prefix t) = []"
  by (simp add: turn_prefix_def)

lemma strip_Nil: "strip [] = []"
  by (simp add: strip_def)

lemma payload_text_shaped: "payload_shaped p \<Longrightarrow> payload_text p = Inr (strip (spec_entry_text p))"
  by (auto simp: payload_shaped_def payload_text_def spec_entry_text_def py_or_def strip_Nil
      split: json.splits option.splits)

lemma first_text_shaped:
  "list_all payload_shaped xs \<Longrightarrow>
   first_text xs = Inr (case find (\<lambda>s. s \<noteq> []) (map (\<lambda>p. strip (spec_entry_text p)) xs) of
                          Some s \<Rightarrow> s | None \<Rightarrow> [])"
  by (induction xs) (simp_all add: payload_text_shaped)

lemma find_nonempty: "find (\<lambda>s. s \<noteq> []) xs = Some s \<Longrightarrow> s \<noteq> []"
  by (induction xs) (auto split: if_splits)

lemma reply_of_payloads:
  assumes "payloads_shaped ps"
  shows "(case py_iter (py_or ps (JArr [])) of
            Inl e \<Rightarrow> Inl e
          | Inr payloads \<Rightarrow>
              (case first_text payloads of
                 Inl e \<Rightarrow> Inl e
               | Inr reply \<Rightarrow> Inr (if reply = [] then fallback else reply)))
         = Inr (case find (\<lambda>s. s \<noteq> [])
                       (map (\<lambda>p. strip (spec_entry_text p)) (case ps of JArr xs \<Rightarrow> xs | _ \<Rightarrow> [])) of
                  Some s \<Rightarrow> s | None \<Rightarrow> fallback)"
proof (cases "\<exists>xs. ps = JArr xs")
  case True
  then obtain xs where ps: "ps = JArr xs" by blast
  with assms have all: "list_all payload_shaped xs" by (simp add: payloads_shaped_def)
  have it: "py_iter (py_or (JArr xs) (JArr [])) = Inr xs" by (cases xs) (simp_all add: py_or_def)
  show ?thesis
    unfolding ps it by (auto simp: first_text_shaped [OF all] split: option.splits dest: find_nonempty)
next
  case False
  with assms have "\<not> truthy ps" by (cases ps) (simp_all add: payloads_shaped_def)
  with False show ?thesis by (cases ps) (simp_all add: py_or_def)
qed

lemma reply_of_result:
  assumes "result_shaped r"
  shows "(case py_get (py_or r (JObj [])) (str ''payloads'') of
        Inl e \<Rightarrow> Inl e
      | Inr ps \<Rightarrow>
     (case py_iter (py_or ps (JArr [])) of
        Inl e \<Rightarrow> Inl e
      | Inr payloads \<Rightarrow>
     (case first_text payloads of
        Inl e \<Rightarrow> Inl e
      | Inr reply \<Rightarrow> Inr (if reply = [] then fallback else reply))))
     = Inr (case find (\<lambda>s. s \<noteq> [])
                       (map (\<lambda>p. strip (spec_entry_text p))
                          (case r of JObj kv \<Rightarrow>
                             (case map_of kv (str ''payloads'') of Some (JArr xs) \<Rightarrow> xs | _ \<Rightarrow> [])
                           | _ \<Rightarrow> [])) of
                  Some s \<Rightarrow> s | None \<Rightarrow> fallback)"
proof (cases "\<exists>kv. r = JObj kv")
  case True
  then obtain kv where r: "r = JObj kv" by blast
  show ?thesis
  proof (cases "map_of kv (str ''payloads'')")
    case None
    then show ?thesis unfolding r by (cases kv) (simp_all add: py_or_def)
  next
    case (Some ps)
    then have ne: "kv \<noteq> []" by auto
    from assms r Some have "payloads_shaped ps" by (simp add: result_shaped_def)
    from reply_of_payloads [OF this] show ?thesis
      unfolding r using Some ne by (cases ps) (simp_all add: py_or_def)
  qed
next
  case False
  with assms have "\<not> truthy r" by (cases r) (simp_all add: result_shaped_def)
  with False show ?thesis by (cases r) (simp_all add: py_or_def)
qed

lemma select_reply_shaped: "reply_shaped data \<Longrightarrow> select_reply data = Inr (spec_reply data)"
proof -
  assume sh: "reply_shaped data"
  then obtain kv where d: "data = JObj kv" by (cases data) (simp_all add: reply_shaped_def)
  show ?thesis
  proof (cases "map_of kv (str ''result'')")
    case None
    then show ?thesis
      unfolding d by (simp add: select_reply_def spec_reply_def spec_payloads_def py_or_def)
  next
    case (Some r)
    with sh d have "result_shaped r" by (simp add: reply_shaped_def)
    from reply_of_result [OF this] show ?thesis
      unfolding d using Some
      by (cases r) (simp_all add: select_reply_def spec_reply_def spec_payloads_def)
  qed
qed

lemmas json_eval = select_reply_def payload_text_def py_or_def payloads_json_def text_entry_def
  reply_shaped_def result_shaped_def payloads_shaped_def payload_shaped_def strip_def is_space_def

lemma select_reply_examples:
  "select_reply (payloads_json [text_entry (JStr []), text_entry (JStr (str ''  '')),
     text_entry (JStr (str ''hello'')), text_entry (JStr (str ''world''))]) = Inr (str ''hello'')"
  "select_reply (payloads_json []) = Inr fallback"
  "select_reply (JObj []) = Inr fallback"
  "select_reply (JObj [(str ''result'', JObj [])]) = Inr fallback"
  by (simp_all add: json_eval str_def)

lemma world_play_simps:
  "cue (world_play t x wh pl) = Enter" "capture (world_play t x wh pl) = None"
  "segments (world_play t x wh pl) = Inr [str '' turn on'', str ''lights '']"
  "bridge (world_play t x wh pl) m s = Inr \<lparr>returncode = 0, stdout = reply_json_text t, stderr = []\<rparr>"
  "loads (world_play t x wh pl) (reply_json_text t) = Some (reply_json t)"
  "edge_tts (world_play t x wh pl) v u = x" "where_ffplay (world_play t x wh pl) = wh"
  "player (world_play t x wh pl) = pl"
  by (simp_all add: world_play_def)

lemma world_reply_simps:
  "cue (world_reply t x) = Enter" "capture (world_reply t x) = None"
  "segments (world_reply t x) = Inr [str '' turn on'', str ''lights '']"
  "bridge (world_reply t x) m s = Inr \<lparr>returncode = 0, stdout = reply_json_text t, stderr = []\<rparr>"
  "loads (world_reply t x) (reply_json_text t) = Some (reply_json t)"
  "edge_tts (world_reply t x) v u = x" "where_ffplay (world_reply t x) = Inr 0"
  "player (world_reply t x) = None"
  by (simp_all add: world_reply_def world_play_simps)

lemma reply_json_text_nonempty: "reply_json_text t \<noteq> []"
  by (simp add: reply_json_text_def str_def)

lemma select_reply_reply_json: "strip t \<noteq> [] \<Longrightarrow> select_reply (reply_json t) = Inr (strip t)"
  by (cases "t = []") (simp_all add: select_reply_def reply_json_def payload_text_def py_or_def strip_Nil)

lemma world_play_reach:
  "quality_gate (transcribe_audio [str '' turn on'', str ''lights '']) = None"
  "returncode \<lparr>returncode = 0, stdout = reply_json_text t, stderr = []\<rparr> = 0"
  "stdout \<lparr>returncode = 0, stdout = reply_json_text t, stderr = []\<rparr> \<noteq> []"
  "loads (world_play t x wh pl) (stdout \<lparr>returncode = 0, stdout = reply_json_text t, stderr = []\<rparr>)
       = Some (reply_json t)"
  by (simp_all add: reply_json_text_nonempty world_play_simps example_transcript example_gate)

lemma turn_world_play:
  assumes "strip t \<noteq> []" "normalize_reply (strip t) = Inr n"
  shows "turn (world_play t x wh pl) =
     emit (turn_prefix (str ''turn on lights'') @ [Print [str ''Mina:'', n],
             EdgeTts VOICE (take 500 n) (str ''reply.mp3'')])
       (case x of
          Inl e \<Rightarrow> handlers e
        | Inr rc \<Rightarrow>
            (case play_audio_windows (world_play t x wh pl) (str ''reply.mp3'') of
               (es, None) \<Rightarrow> (es, Continue)
             | (es, Some e) \<Rightarrow> emit es (handlers e)))"
  using turn_at_reply [OF world_play_simps(1-3) world_play_reach(1) world_play_simps(4)
      world_play_reach(2-4) select_reply_reply_json [OF assms(1)] assms(2), of x wh pl]
  by (simp add: world_play_simps example_transcript)

lemma normalize_hi: "normalize_reply (str ''Hi there'') = Inr (str ''Hi there'')"
  by (simp add: text_eval)

lemma strip_hi: "strip (str ''Hi there'') = str ''Hi there''"
  by (simp add: strip_def str_def is_space_def)

lemma world_reply_reach:
  "quality_gate (transcribe_audio [str '' turn on'', str ''lights '']) = None"
  "returncode \<lparr>returncode = 0, stdout = reply_json_text t, stderr = []\<rparr> = 0"
  "stdout \<lparr>returncode = 0, stdout = reply_json_text t, stderr = []\<rparr> \<noteq> []"
  "loads (world_reply t x) (stdout \<lparr>returncode = 0, stdout = reply_json_text t, stderr = []\<rparr>)
       = Some (reply_json t)"
  by (simp_all add: reply_json_text_nonempty world_reply_simps example_transcript example_gate)

lemma no_ws_run_no_space: "\<forall>c\<in>set s. \<not> is_space c \<Longrightarrow> no_ws_run s"
  by (induction s rule: no_ws_run.induct) simp_all

lemma long_reply:
  "strip (replicate 600 0x61) = replicate 600 0x61"
  "normalize_reply (replicate 600 0x61) = Inr (replicate 600 0x61)"
proof -
  have sp: "\<not> is_space 0x61" "\<not> md_char 0x61" by (simp_all add: is_space_def md_char_def)
  then have t: "tidy (replicate 600 0x61)"
    by (simp add: tidy_def no_ws_run_no_space)
  show "strip (replicate 600 0x61) = replicate 600 0x61"
    using sp by (intro strip_id) simp
  show "normalize_reply (replicate 600 0x61) = Inr (replicate 600 0x61)"
    by (simp add: normalize_reply_def clean_text_tidy_id [OF t] ascii_ignore_filter strip_emoji_filter)
qed

section \<open>The claims about the text helpers\<close>

text \<open>
  C5, as amended. For every input, \<open>clean_text\<close> is the composition of its stages: the
  reply-to tags are substituted away, every backtick, asterisk, underscore, hash,
  greater-than sign and tilde is dropped (a less-than sign is kept), a newline becomes a
  space and an em-dash or en-dash a comma and a space, every whitespace run becomes one
  space, and the ends are trimmed. So its result holds none of the dropped or replaced
  characters and no whitespace but the space, no two adjacent whitespace characters (so no
  two adjacent spaces), no whitespace at either end, and no reply-to tag at any position.
  The tag pattern matches at the start of a string exactly when the string starts with
  \<open>[[\<close>, whitespace, \<open>reply_to\<close> in any letter case, a body without \<open>]\<close>, and \<open>]]\<close>.
  A text with no match at any position passes the tag stage unchanged; the leftmost match
  of a text is removed whole, the text before it is kept and the stage goes on after it.
  The function is total: it is defined by terminating recursions.
\<close>

theorem clean_text_contract:
  "clean_text t =
     strip (sub_ws (concat (map (\<lambda>c. if c = 0x0A then [0x20]
                                      else if c = 0x2014 \<or> c = 0x2013 then [0x2C, 0x20] else [c])
       (filter (\<lambda>c. c \<notin> {0x60, 0x2A, 0x5F, 0x23, 0x3E, 0x7E}) (sub_tags t)))))
   \<and> (\<forall>c\<in>set (clean_text t). c \<notin> {0x60, 0x2A, 0x5F, 0x23, 0x3E, 0x7E}
          \<and> c \<noteq> 0x2014 \<and> c \<noteq> 0x2013 \<and> (is_space c \<longrightarrow> c = 0x20))
   \<and> (\<forall>i. Suc i < length (clean_text t) \<longrightarrow>
         \<not> (is_space (clean_text t ! i) \<and> is_space (clean_text t ! Suc i)))
   \<and> (\<forall>i. Suc i < length (clean_text t) \<longrightarrow>
         \<not> (clean_text t ! i = 0x20 \<and> clean_text t ! Suc i = 0x20))
   \<and> (clean_text t \<noteq> [] \<longrightarrow> \<not> is_space (hd (clean_text t)) \<and> \<not> is_space (last (clean_text t)))
   \<and> (match_tag s = Some r \<longleftrightarrow>
         (\<exists>ws name body. s = [0x5B, 0x5B] @ ws @ name @ body @ [0x5D, 0x5D] @ r
            \<and> list_all is_space ws
            \<and> list_all2 (\<lambda>c p. c = fst p \<or> c = snd p) name (zip (str ''reply_to'') (str ''REPLY_TO''))
            \<and> 0x5D \<notin> set body))
   \<and> ((\<forall>i. match_tag (drop i t) = None) \<longrightarrow> sub_tags t = t)
   \<and> ((\<forall>i<length pre. match_tag (drop i (pre @ s)) = None) \<and> match_tag s = Some r \<longrightarrow>
         sub_tags (pre @ s) = pre @ sub_tags r)
   \<and> (\<forall>i. match_tag (drop i (clean_text t)) = None)
   \<and> clean_text [0x20, 0x61, 0x0A, 0x09, 0x62, 0x2014, 0x63, 0xA0] = str ''a b, c''
   \<and> clean_text (str ''[x] [[ Reply_To: 12 ]]**Hi** <b>'') = str ''[x] Hi <b''"
proof -
  have md: "\<And>c. md_char c \<longleftrightarrow> c \<in> {0x60, 0x2A, 0x5F, 0x23, 0x3E, 0x7E}"
    by (simp add: md_char_def)
  have 1: "clean_text t =
     strip (sub_ws (concat (map (\<lambda>c. if c = 0x0A then [0x20]
                                      else if c = 0x2014 \<or> c = 0x2013 then [0x2C, 0x20] else [c])
       (filter (\<lambda>c. c \<notin> {0x60, 0x2A, 0x5F, 0x23, 0x3E, 0x7E}) (sub_tags t)))))"
    using clean_text_stages [of t] unfolding md .
  have t: "tidy (clean_text t)" by (rule tidy_clean_text)
  then have 2: "\<forall>c\<in>set (clean_text t). c \<notin> {0x60, 0x2A, 0x5F, 0x23, 0x3E, 0x7E}
          \<and> c \<noteq> 0x2014 \<and> c \<noteq> 0x2013 \<and> (is_space c \<longrightarrow> c = 0x20)"
    unfolding tidy_def md by blast
  from t have "no_ws_run (clean_text t)" unfolding tidy_def by blast
  then have 3: "\<forall>i. Suc i < length (clean_text t) \<longrightarrow>
         \<not> (is_space (clean_text t ! i) \<and> is_space (clean_text t ! Suc i))"
    using no_ws_run_nth by blast
  then have 4: "\<forall>i. Suc i < length (clean_text t) \<longrightarrow>
         \<not> (clean_text t ! i = 0x20 \<and> clean_text t ! Suc i = 0x20)"
    using is_space_simps(1) by metis
  from t have 5: "clean_text t \<noteq> [] \<longrightarrow> \<not> is_space (hd (clean_text t)) \<and> \<not> is_space (last (clean_text t))"
    unfolding tidy_def by blast
  have 8: "\<forall>i. match_tag (drop i (clean_text t)) = None"
  proof
    fix i
    from 2 have "0x5F \<notin> set (clean_text t)" by auto
    then have "0x5F \<notin> set (drop i (clean_text t))" by (auto dest: in_set_dropD)
    then show "match_tag (drop i (clean_text t)) = None"
      using match_tag_underscore by (cases "match_tag (drop i (clean_text t))") auto
  qed
  have 9: "clean_text [0x20, 0x61, 0x0A, 0x09, 0x62, 0x2014, 0x63, 0xA0] = str ''a b, c''"
    by (simp add: text_eval)
  have 10: "clean_text (str ''[x] [[ Reply_To: 12 ]]**Hi** <b>'') = str ''[x] Hi <b''"
    by (simp add: text_eval)
  show ?thesis
    using 1 2 3 4 5 match_tag_iff [of s r] sub_tags_none [of t] sub_tags_leftmost [of pre s r] 8 9 10
    by blast
qed

theorem clean_text_contract_witness:
  "clean_text (str ''  Hello  **world** ok  '') = str ''Hello world ok''
   \<and> str ''Hello world ok'' \<noteq> []
   \<and> \<not> is_space (hd (str ''Hello world ok'')) \<and> \<not> is_space (last (str ''Hello world ok''))
   \<and> sub_tags (str ''  Hello  **world** ok  '') = str ''  Hello  **world** ok  ''
   \<and> match_tag (str ''[[ Reply_To: 12 ]]**Hi**'') = Some (str ''**Hi**'')
   \<and> sub_tags (str ''[x] '' @ str ''[[ Reply_To: 12 ]]**Hi**'') = str ''[x] '' @ sub_tags (str ''**Hi**'')"
proof -
  let ?t = "str ''  Hello  **world** ok  ''"
  let ?s = "str ''[[ Reply_To: 12 ]]**Hi**''"
  let ?r = "str ''**Hi**''"
  let ?pre = "str ''[x] ''"
  have e: "clean_text ?t = str ''Hello world ok''" by (simp add: text_eval)
  have ne: "clean_text ?t \<noteq> []" by (simp add: text_eval)
  have "0x5B \<notin> set ?t" by (simp add: str_def)
  then have g1: "\<forall>i. match_tag (drop i ?t) = None" by (simp add: no_open_no_match)
  have m: "match_tag ?s = Some ?r" by (simp add: text_eval)
  have g2: "\<forall>i<length ?pre. match_tag (drop i (?pre @ ?s)) = None"
    by (simp add: str_def less_Suc_eq eval_nat_numeral match_tag_def is_space_def all_conj_distrib)
  from clean_text_contract [of ?t ?s ?r ?pre] ne g1 g2 m
  have "\<not> is_space (hd (clean_text ?t)) \<and> \<not> is_space (last (clean_text ?t))"
    and "sub_tags ?t = ?t" and "sub_tags (?pre @ ?s) = ?pre @ sub_tags ?r"
    by blast+
  then show ?thesis using e m by (simp add: str_def)
qed

text \<open>
  C5 as stated drops every occurrence of an angle bracket. The class of the source holds
  the greater-than sign only, so the less-than signs of \<open><b>x</b>\<close> stay.
\<close>

theorem clean_text_angle_counterexample:
  "clean_text (str ''<b>x</b>'') = str ''<bx</b'' \<and> 0x3C \<in> set (clean_text (str ''<b>x</b>''))"
  by (simp add: text_eval)

text \<open>C6. \<open>clean_text\<close> is idempotent.\<close>

theorem clean_text_idempotent: "clean_text (clean_text x) = clean_text x"
  by (rule clean_text_tidy_id) (rule tidy_clean_text)

theorem clean_text_idempotent_witness:
  "clean_text (clean_text (str ''  Hello [[ Reply_To: 12 ]] **world** ok  '')) = str ''Hello world ok''"
  using clean_text_idempotent [of "str ''  Hello [[ Reply_To: 12 ]] **world** ok  ''"]
  by (simp add: text_eval)

text \<open>
  C7. On a well-formed string \<open>strip_emoji\<close> keeps exactly the characters of the Basic
  Multilingual Plane (below \<open>U+10000\<close>), unchanged and in their order, and drops every
  other one.
\<close>

theorem strip_emoji_bmp:
  "wf_str s \<Longrightarrow>
   strip_emoji s = filter (\<lambda>c. c < 0x10000) s \<and> (\<forall>c\<in>set (strip_emoji s). c < 0x10000)"
proof -
  assume "wf_str s"
  then have "\<forall>c\<in>set s. c \<le> 0x10FFFF" by (simp add: wf_str_def list_all_iff)
  then have "filter (\<lambda>c. \<not> (0x10000 \<le> c \<and> c \<le> 0x10FFFF)) s = filter (\<lambda>c. c < 0x10000) s"
    by (intro filter_cong) auto
  then show ?thesis by (simp add: strip_emoji_filter)
qed

theorem strip_emoji_bmp_witness:
  "wf_str [0x68, 0x1F600, 0x2615, 0xE9, 0x10000, 0xFFFF, 0x10FFFF, 0x69]
   \<and> strip_emoji [0x68, 0x1F600, 0x2615, 0xE9, 0x10000, 0xFFFF, 0x10FFFF, 0x69]
       = [0x68, 0x2615, 0xE9, 0xFFFF, 0x69]"
proof -
  have h: "wf_str [0x68, 0x1F600, 0x2615, 0xE9, 0x10000, 0xFFFF, 0x10FFFF, 0x69]"
    by (simp add: wf_str_def)
  show ?thesis using h strip_emoji_bmp [OF h] by simp
qed

text \<open>
  C10. Dropping the non-ASCII characters of \<open>strip_emoji x\<close> gives the same string as
  dropping those of \<open>x\<close>: the emoji stripping before the ASCII coercion is redundant.
\<close>

theorem ascii_ignore_strip_emoji: "ascii_ignore (strip_emoji x) = ascii_ignore x"
proof -
  have "filter (\<lambda>c. c < 0x80) (strip_emoji x) = filter (\<lambda>c. c < 0x80) x"
    unfolding strip_emoji_filter filter_filter by (rule filter_cong) auto
  then show ?thesis by (simp add: ascii_ignore_filter)
qed

theorem ascii_ignore_strip_emoji_witness:
  "ascii_ignore (strip_emoji [0x68, 0x1F600, 0x2615, 0x69]) = Inr [0x68, 0x69]
   \<and> ascii_ignore [0x68, 0x1F600, 0x2615, 0x69] = Inr [0x68, 0x69]"
  using ascii_ignore_strip_emoji [of "[0x68, 0x1F600, 0x2615, 0x69]"]
  by (simp add: text_eval)

text \<open>
  C4, as amended. The reply normalization of \<open>caf\<close>, e-acute, space, \<open>U+2615\<close>, space,
  \<open>test\<close> is \<open>caf\<close>, two spaces, \<open>test\<close>: the two dropped characters leave nothing
  behind, and the spaces on both sides of the dropped \<open>U+2615\<close> stay. For every input the
  normalization succeeds, its result holds ASCII characters only, and it is exactly the
  ASCII characters of the cleaned, emoji-stripped text in their order.
\<close>

theorem normalize_reply_drops_non_ascii:
  "normalize_reply [0x63, 0x61, 0x66, 0xE9, 0x20, 0x2615, 0x20, 0x74, 0x65, 0x73, 0x74]
     = Inr (str ''caf  test'')
   \<and> (\<exists>r. normalize_reply s = Inr r \<and> list_all (\<lambda>c. c < 0x80) r
        \<and> r = filter (\<lambda>c. c < 0x80) (strip_emoji (clean_text s)))"
proof -
  have "normalize_reply [0x63, 0x61, 0x66, 0xE9, 0x20, 0x2615, 0x20, 0x74, 0x65, 0x73, 0x74]
     = Inr (str ''caf  test'')"
    by (simp add: text_eval)
  moreover have "normalize_reply s = Inr (filter (\<lambda>c. c < 0x80) (strip_emoji (clean_text s)))"
    by (simp add: normalize_reply_def ascii_ignore_filter)
  ultimately show ?thesis by (simp add: list_all_iff)
qed

theorem normalize_reply_drops_non_ascii_witness:
  "normalize_reply [0x4F, 0x4B, 0x20, 0x1F600, 0x20, 0x2014, 0x20, 0xE9, 0x21] = Inr (str ''OK  , !'')"
  using normalize_reply_drops_non_ascii [of "[0x4F, 0x4B, 0x20, 0x1F600, 0x20, 0x2014, 0x20, 0xE9, 0x21]"]
  by (simp add: text_eval)

text \<open>
  C4 as stated gives \<open>caf test\<close> with one space for that input; the normalization gives
  two.
\<close>

theorem normalize_reply_cafe_counterexample:
  "normalize_reply [0x63, 0x61, 0x66, 0xE9, 0x20, 0x2615, 0x20, 0x74, 0x65, 0x73, 0x74]
     \<noteq> Inr (str ''caf test'')"
  by (simp add: text_eval)

section \<open>The claims about the pipeline\<close>

text \<open>
  C3, as amended. The gate rejects a transcript exactly when it is empty, or holds no ASCII
  letter or digit (no character of \<open>[a-zA-Z0-9]\<close>; a letter or digit outside ASCII does
  not count), or splits into fewer than two whitespace-delimited tokens. It rejects the
  empty transcript, \<open>???\<close> and \<open>ok\<close>, and accepts \<open>turn on lights\<close>; it rejects two
  tokens of accented letters or of punctuation, and accepts two tokens with one ASCII
  letter or digit among them. In a turn that reaches the gate, a rejected transcript ends
  the turn with the loop going on and with no bridge, synthesis or playback call; an
  accepted one is sent to the bridge.
\<close>

theorem quality_gate_iff:
  "(quality_gate text \<noteq> None \<longleftrightarrow>
      text = []
      \<or> \<not> (\<exists>c\<in>set text. (0x61 \<le> c \<and> c \<le> 0x7A) \<or> (0x41 \<le> c \<and> c \<le> 0x5A) \<or> (0x30 \<le> c \<and> c \<le> 0x39))
      \<or> length (py_split text) < 2)
   \<and> quality_gate [] \<noteq> None \<and> quality_gate (str ''???'') \<noteq> None
   \<and> quality_gate (str ''ok'') \<noteq> None \<and> quality_gate (str ''turn on lights'') = None
   \<and> quality_gate [0xE9, 0x20, 0xE0] \<noteq> None \<and> quality_gate (str ''?? !!'') \<noteq> None
   \<and> quality_gate (str ''a ?'') = None \<and> quality_gate (str ''? Z'') = None
   \<and> quality_gate (str ''7 ?'') = None
   \<and> py_split [0x09, 0x61, 0x62, 0x0A, 0x20, 0x63, 0xA0] = [[0x61, 0x62], [0x63]]
   \<and> (cue w = Enter \<and> capture w = None \<and> segments w = Inr segs \<longrightarrow>
        (quality_gate (transcribe_audio segs) \<noteq> None \<longrightarrow>
           snd (turn w) = Continue \<and> (\<forall>e\<in>set (fst (turn w)). \<not> is_bridge e \<and> \<not> is_speech e))
      \<and> (quality_gate (transcribe_audio segs) = None \<longrightarrow>
           AskMina (transcribe_audio segs) SESSION_ID \<in> set (fst (turn w))))"
proof -
  have 1: "quality_gate text \<noteq> None \<longleftrightarrow>
      text = []
      \<or> \<not> (\<exists>c\<in>set text. (0x61 \<le> c \<and> c \<le> 0x7A) \<or> (0x41 \<le> c \<and> c \<le> 0x5A) \<or> (0x30 \<le> c \<and> c \<le> 0x39))
      \<or> length (py_split text) < 2"
    by (simp add: quality_gate_def list_ex_iff ascii_alnum_def)
  have 2: "cue w = Enter \<and> capture w = None \<and> segments w = Inr segs \<longrightarrow>
        (quality_gate (transcribe_audio segs) \<noteq> None \<longrightarrow>
           snd (turn w) = Continue \<and> (\<forall>e\<in>set (fst (turn w)). \<not> is_bridge e \<and> \<not> is_speech e))"
    by (auto simp: turn_at_gate emit_def dest: gate_diag_quiet)
  have 3: "cue w = Enter \<and> capture w = None \<and> segments w = Inr segs \<longrightarrow>
      (quality_gate (transcribe_audio segs) = None \<longrightarrow>
           AskMina (transcribe_audio segs) SESSION_ID \<in> set (fst (turn w)))"
    by (auto simp: turn_at_gate emit_def bridge_stage_def)
  have 4: "quality_gate [0xE9, 0x20, 0xE0] \<noteq> None" "quality_gate (str ''?? !!'') \<noteq> None"
    "quality_gate (str ''a ?'') = None" "quality_gate (str ''? Z'') = None"
    "quality_gate (str ''7 ?'') = None"
    "py_split [0x09, 0x61, 0x62, 0x0A, 0x20, 0x63, 0xA0] = [[0x61, 0x62], [0x63]]"
    by (simp_all add: gate_eval str_def is_space_def)
  from 1 2 3 4 gate_examples show ?thesis by blast
qed

theorem quality_gate_iff_witness:
  "quality_gate (transcribe_audio [str '' ok '']) \<noteq> None
   \<and> turn (world_heard [str '' ok '']) =
       ([Input ([0x0A] @ str ''Press Enter to speak (Ctrl+C to quit)... ''),
         Print [str ''Recording 8s...''], RecordMic, Print [str ''Transcribing...''], Transcribe,
         PrintTooShort (str ''ok'')], Continue)
   \<and> quality_gate (transcribe_audio [str '' turn on'', str ''lights '']) = None
   \<and> AskMina (str ''turn on lights'') SESSION_ID
        \<in> set (fst (turn (world_heard [str '' turn on'', str ''lights ''])))"
proof -
  have a: "cue (world_heard [str '' ok '']) = Enter \<and> capture (world_heard [str '' ok '']) = None
        \<and> segments (world_heard [str '' ok '']) = Inr [str '' ok '']"
    by (simp add: world_heard_def)
  have b: "quality_gate (transcribe_audio [str '' ok '']) \<noteq> None"
    by (simp add: transcribe_audio_def text_eval gate_eval)
  have c: "cue (world_heard [str '' turn on'', str ''lights '']) = Enter
        \<and> capture (world_heard [str '' turn on'', str ''lights '']) = None
        \<and> segments (world_heard [str '' turn on'', str ''lights '']) = Inr [str '' turn on'', str ''lights '']"
    by (simp add: world_heard_def)
  have d: "quality_gate (transcribe_audio [str '' turn on'', str ''lights '']) = None"
    by (simp add: example_transcript example_gate)
  have e: "turn (world_heard [str '' ok '']) =
       ([Input ([0x0A] @ str ''Press Enter to speak (Ctrl+C to quit)... ''),
         Print [str ''Recording 8s...''], RecordMic, Print [str ''Transcribing...''], Transcribe,
         PrintTooShort (str ''ok'')], Continue)"
    by (simp add: turn_def world_heard_def emit_def transcribe_audio_def text_eval gate_eval)
  from quality_gate_iff [of "str ''ok''" "world_heard [str '' ok '']" "[str '' ok '']"] a b
  have "snd (turn (world_heard [str '' ok ''])) = Continue" by blast
  moreover from quality_gate_iff [of "str ''ok''" "world_heard [str '' turn on'', str ''lights '']"
      "[str '' turn on'', str ''lights '']"] c d
  have "AskMina (transcribe_audio [str '' turn on'', str ''lights '']) SESSION_ID
        \<in> set (fst (turn (world_heard [str '' turn on'', str ''lights ''])))" by blast
  ultimately show ?thesis using b d e by (simp add: example_transcript)
qed

text \<open>
  C3 as stated lets a transcript pass that holds an alphanumeric character and two tokens.
  The transcript of e-acute, space, a-grave is not empty, holds two letters and splits into
  two tokens, yet the gate rejects it as noise.
\<close>

theorem quality_gate_counterexample:
  "quality_gate [0xE9, 0x20, 0xE0] = Some (Print [str ''Heard only noise/punctuation, skipping.''])
   \<and> [0xE9, 0x20, 0xE0] \<noteq> ([] :: ustr)
   \<and> latin1_letter 0xE9 \<and> latin1_letter 0xE0
   \<and> py_split [0xE9, 0x20, 0xE0] = [[0xE9], [0xE0]]"
  by (simp add: gate_eval latin1_letter_def is_space_def str_def)

text \<open>
  C2. In a turn whose transcript passed the gate and whose bridge call returned, a non-zero
  exit status, an empty stdout, or a stdout that does not parse as JSON ends the turn
  after its diagnostic: the loop goes on with the next iteration and the turn has no
  synthesis or playback call. The diagnostic is, in this order of precedence, the line
  \<open>WSL/OpenClaw failed:\<close> and the first 1200 characters of stderr; the line
  \<open>No stdout from WSL OpenClaw call.\<close> and the first 1200 characters of stderr; the line
  \<open>Could not parse JSON from WSL.\<close> and the first 1200 characters of stdout and of stderr
  (a placeholder stands for an empty stderr). The three headlines differ.
\<close>

theorem bridge_failure_aborts:
  assumes "cue w = Enter" "capture w = None" "segments w = Inr segs"
    and "quality_gate (transcribe_audio segs) = None"
    and "bridge w (transcribe_audio segs) SESSION_ID = Inr p"
    and "returncode p \<noteq> 0 \<or> stdout p = [] \<or> loads w (stdout p) = None"
  shows "snd (turn w) = Continue
    \<and> main_loop (w # ws) = fst (turn w) @ main_loop ws
    \<and> (\<forall>e\<in>set (fst (turn w)). \<not> is_speech e)
    \<and> (returncode p \<noteq> 0 \<longrightarrow>
          fst (turn w) = turn_prefix (transcribe_audio segs) @
            [Print [str ''WSL/OpenClaw failed:''],
             Print [if stderr p \<noteq> [] then take 1200 (stderr p) else str ''(no stderr)'']])
    \<and> (returncode p = 0 \<and> stdout p = [] \<longrightarrow>
          fst (turn w) = turn_prefix (transcribe_audio segs) @
            [Print [str ''No stdout from WSL OpenClaw call.''],
             Print [str ''stderr:'', if stderr p \<noteq> [] then take 1200 (stderr p) else str ''(none)'']])
    \<and> (returncode p = 0 \<and> stdout p \<noteq> [] \<and> loads w (stdout p) = None \<longrightarrow>
          fst (turn w) = turn_prefix (transcribe_audio segs) @
            [Print [str ''Could not parse JSON from WSL.''],
             Print [str ''stdout:'', take 1200 (stdout p)],
             Print [str ''stderr:'', if stderr p \<noteq> [] then take 1200 (stderr p) else str ''(none)'']])
    \<and> str ''WSL/OpenClaw failed:'' \<noteq> str ''No stdout from WSL OpenClaw call.''
    \<and> str ''WSL/OpenClaw failed:'' \<noteq> str ''Could not parse JSON from WSL.''
    \<and> str ''No stdout from WSL OpenClaw call.'' \<noteq> str ''Could not parse JSON from WSL.''"
proof -
  note t = turn_at_bridge [OF assms(1-4), unfolded assms(5), simplified]
  consider (rc) "returncode p \<noteq> 0" | (empty) "returncode p = 0" "stdout p = []"
    | (parse) "returncode p = 0" "stdout p \<noteq> []" "loads w (stdout p) = None"
    using assms(6) by (cases "returncode p = 0"; cases "stdout p = []"; simp)
  then have "snd (turn w) = Continue \<and> (\<forall>e\<in>set (fst (turn w)). \<not> is_speech e)"
    by cases (simp_all add: t turn_prefix_quiet)
  then have c: "snd (turn w) = Continue" and q: "\<forall>e\<in>set (fst (turn w)). \<not> is_speech e"
    by simp_all
  have d: "str ''WSL/OpenClaw failed:'' \<noteq> str ''No stdout from WSL OpenClaw call.''
    \<and> str ''WSL/OpenClaw failed:'' \<noteq> str ''Could not parse JSON from WSL.''
    \<and> str ''No stdout from WSL OpenClaw call.'' \<noteq> str ''Could not parse JSON from WSL.''"
    by (simp add: str_def)
  from c have l: "main_loop (w # ws) = fst (turn w) @ main_loop ws" by (rule main_loop_continue)
  show ?thesis using c q d l by (simp add: t stderr_snippet_def)
qed

theorem bridge_failure_aborts_witness:
  "turn (world_bridge \<lparr>returncode = 1, stdout = str ''partial'', stderr = str ''boom''\<rparr>) =
     (turn_prefix (str ''turn on lights'') @
        [Print [str ''WSL/OpenClaw failed:''], Print [str ''boom'']], Continue)
   \<and> turn (world_bridge \<lparr>returncode = 0, stdout = [], stderr = []\<rparr>) =
     (turn_prefix (str ''turn on lights'') @
        [Print [str ''No stdout from WSL OpenClaw call.''], Print [str ''stderr:'', str ''(none)'']],
      Continue)
   \<and> turn (world_bridge \<lparr>returncode = 0, stdout = str ''not json'', stderr = []\<rparr>) =
     (turn_prefix (str ''turn on lights'') @
        [Print [str ''Could not parse JSON from WSL.''], Print [str ''stdout:'', str ''not json''],
         Print [str ''stderr:'', str ''(none)'']], Continue)"
proof -
  let ?segs = "[str '' turn on'', str ''lights '']"
  let ?p1 = "\<lparr>returncode = 1, stdout = str ''partial'', stderr = str ''boom''\<rparr>"
  let ?p2 = "\<lparr>returncode = 0, stdout = [], stderr = []\<rparr>"
  let ?p3 = "\<lparr>returncode = 0, stdout = str ''not json'', stderr = []\<rparr>"
  have g: "quality_gate (transcribe_audio ?segs) = None"
    by (simp add: example_transcript example_gate)
  have w: "\<And>p. cue (world_bridge p) = Enter" "\<And>p. capture (world_bridge p) = None"
    "\<And>p. segments (world_bridge p) = Inr ?segs"
    "\<And>p. bridge (world_bridge p) (transcribe_audio ?segs) SESSION_ID = Inr p"
    "\<And>p t. loads (world_bridge p) t = None"
    by (simp_all add: world_bridge_def)
  have 1: "returncode ?p1 \<noteq> 0 \<or> stdout ?p1 = [] \<or> loads (world_bridge ?p1) (stdout ?p1) = None"
    by simp
  have 2: "returncode ?p2 \<noteq> 0 \<or> stdout ?p2 = [] \<or> loads (world_bridge ?p2) (stdout ?p2) = None"
    by simp
  have 3: "returncode ?p3 \<noteq> 0 \<or> stdout ?p3 = [] \<or> loads (world_bridge ?p3) (stdout ?p3) = None"
    by (simp add: w)
  have n: "str ''boom'' \<noteq> []" "str ''not json'' \<noteq> []" "take 1200 (str ''boom'') = str ''boom''"
    "take 1200 (str ''not json'') = str ''not json''"
    by (simp_all add: str_def)
  from bridge_failure_aborts [OF w(1) w(2) w(3) g w(4) 1, of "[]"]
  have a: "turn (world_bridge ?p1) =
     (turn_prefix (str ''turn on lights'') @
        [Print [str ''WSL/OpenClaw failed:''], Print [str ''boom'']], Continue)"
    by (simp add: example_transcript n prod_eq_iff)
  from bridge_failure_aborts [OF w(1) w(2) w(3) g w(4) 2, of "[]"]
  have b: "turn (world_bridge ?p2) =
     (turn_prefix (str ''turn on lights'') @
        [Print [str ''No stdout from WSL OpenClaw call.''], Print [str ''stderr:'', str ''(none)'']],
      Continue)"
    by (simp add: example_transcript prod_eq_iff)
  from bridge_failure_aborts [OF w(1) w(2) w(3) g w(4) 3, of "[]"]
  have c: "turn (world_bridge ?p3) =
     (turn_prefix (str ''turn on lights'') @
        [Print [str ''Could not parse JSON from WSL.''], Print [str ''stdout:'', str ''not json''],
         Print [str ''stderr:'', str ''(none)'']], Continue)"
    by (simp add: example_transcript n w prod_eq_iff)
  from a b c show ?thesis by simp
qed

text \<open>
  C1, as amended. For every response of the expected shape the selected reply is the
  trimmed text of the first payload entry whose trimmed text is not empty, and the fallback
  string when there is none. For the payload texts \<open>""\<close>, \<open>"  "\<close>, \<open>"hello"\<close>,
  \<open>"world"\<close> it is \<open>hello\<close>; for an empty payload list, a missing \<open>result\<close> and a missing
  \<open>payloads\<close> it is the fallback string, as it is when every entry has an empty trimmed
  text.
\<close>

theorem reply_selection:
  "(reply_shaped data \<longrightarrow> select_reply data = Inr (spec_reply data))
   \<and> select_reply (payloads_json [text_entry (JStr []), text_entry (JStr (str ''  '')),
        text_entry (JStr (str ''hello'')), text_entry (JStr (str ''world''))]) = Inr (str ''hello'')
   \<and> select_reply (payloads_json []) = Inr fallback
   \<and> select_reply (JObj []) = Inr fallback
   \<and> select_reply (JObj [(str ''result'', JObj [])]) = Inr fallback
   \<and> (list_all payload_shaped xs \<and> (\<forall>p\<in>set xs. strip (spec_entry_text p) = []) \<longrightarrow>
        select_reply (payloads_json xs) = Inr fallback)"
proof -
  have "select_reply (payloads_json xs) = Inr fallback"
    if a: "list_all payload_shaped xs" and b: "\<forall>p\<in>set xs. strip (spec_entry_text p) = []"
  proof -
    have sh: "reply_shaped (payloads_json xs)"
      using a by (simp add: reply_shaped_def result_shaped_def payloads_shaped_def payloads_json_def)
    have sp: "spec_payloads (payloads_json xs) = xs"
      by (simp add: spec_payloads_def payloads_json_def)
    from b have "find (\<lambda>s. s \<noteq> []) (map (\<lambda>p. strip (spec_entry_text p)) xs) = None"
      by (simp add: find_None_iff)
    then have "spec_reply (payloads_json xs) = fallback" by (simp add: spec_reply_def sp)
    with select_reply_shaped [OF sh] show ?thesis by simp
  qed
  with select_reply_shaped select_reply_examples show ?thesis by blast
qed

theorem reply_selection_witness:
  "reply_shaped (payloads_json [text_entry (JStr []), text_entry (JStr (str ''  '')),
        text_entry (JStr (str '' hello '')), text_entry (JStr (str ''world''))])
   \<and> select_reply (payloads_json [text_entry (JStr []), text_entry (JStr (str ''  '')),
        text_entry (JStr (str '' hello '')), text_entry (JStr (str ''world''))]) = Inr (str ''hello'')
   \<and> list_all payload_shaped [text_entry JNull, text_entry (JStr (str ''  ''))]
   \<and> strip (spec_entry_text (text_entry JNull)) = []
   \<and> strip (spec_entry_text (text_entry (JStr (str ''  '')))) = []
   \<and> select_reply (payloads_json [text_entry JNull, text_entry (JStr (str ''  ''))]) = Inr fallback"
proof -
  let ?d = "payloads_json [text_entry (JStr []), text_entry (JStr (str ''  '')),
        text_entry (JStr (str '' hello '')), text_entry (JStr (str ''world''))]"
  let ?xs = "[text_entry JNull, text_entry (JStr (str ''  ''))]"
  have a: "reply_shaped ?d" by (simp add: json_eval)
  have b: "spec_reply ?d = str ''hello''"
    by (simp add: spec_reply_def spec_payloads_def spec_entry_text_def json_eval str_def)
  have c: "list_all payload_shaped ?xs \<and> (\<forall>p\<in>set ?xs. strip (spec_entry_text p) = [])"
    by (simp add: spec_entry_text_def json_eval str_def)
  from reply_selection [of ?d ?xs] a b c show ?thesis by simp
qed

text \<open>
  C1 as stated covers every decoded response. A payload list that starts with \<open>null\<close>
  raises \<open>AttributeError\<close> rather than selecting the \<open>hello\<close> of its second entry, and
  so does a \<open>result\<close> that is a string rather than selecting the fallback string.
\<close>

theorem reply_selection_counterexample:
  "select_reply (payloads_json [JNull, text_entry (JStr (str ''hello''))])
     = Inl (attribute_error JNull (str ''get''))
   \<and> select_reply (payloads_json [JNull, text_entry (JStr (str ''hello''))]) \<noteq> Inr (str ''hello'')
   \<and> select_reply (JObj [(str ''result'', JStr (str ''busy''))])
     = Inl (attribute_error (JStr (str ''busy'')) (str ''get''))
   \<and> select_reply (JObj [(str ''result'', JStr (str ''busy''))]) \<noteq> Inr fallback"
  by (simp add: json_eval str_def)

text \<open>
  C9. In a turn that reaches the synthesis, the one \<open>edge-tts\<close> call is made with the first
  500 characters of the normalized reply: the whole reply when it has at most 500
  characters, and a 500-character prefix of a reply of 600.
\<close>

theorem spoken_is_first_500:
  assumes "cue w = Enter" "capture w = None" "segments w = Inr segs"
    and "quality_gate (transcribe_audio segs) = None"
    and "bridge w (transcribe_audio segs) SESSION_ID = Inr p"
    and "returncode p = 0" "stdout p \<noteq> []" "loads w (stdout p) = Some data"
    and "select_reply data = Inr r" "normalize_reply r = Inr n"
  shows "filter is_tts (fst (turn w)) = [EdgeTts VOICE (take 500 n) (str ''reply.mp3'')]
    \<and> (length n \<le> 500 \<longrightarrow> take 500 n = n)
    \<and> (length n = 600 \<longrightarrow> length (take 500 n) = 500 \<and> take 500 n @ drop 500 n = n)"
  by (simp add: turn_at_reply [OF assms] emit_def turn_prefix_no_tts after_tts_no_tts)

theorem spoken_is_first_500_witness:
  "length (replicate 600 (0x61::nat)) = 600
   \<and> filter is_tts (fst (turn (world_reply (replicate 600 0x61) (Inr 0))))
       = [EdgeTts VOICE (replicate 500 0x61) (str ''reply.mp3'')]
   \<and> length (str ''Hi there'') \<le> 500
   \<and> filter is_tts (fst (turn (world_reply (str ''Hi there'') (Inr 0))))
       = [EdgeTts VOICE (str ''Hi there'') (str ''reply.mp3'')]"
proof -
  have a: "select_reply (reply_json (replicate 600 0x61)) = Inr (replicate 600 0x61)"
    using select_reply_reply_json [of "replicate 600 0x61"] by (simp add: long_reply)
  have b: "select_reply (reply_json (str ''Hi there'')) = Inr (str ''Hi there'')"
    using select_reply_reply_json [of "str ''Hi there''"] by (simp add: strip_hi) (simp add: str_def)
  have l: "length (str ''Hi there'') \<le> 500" by (simp add: str_def)
  from spoken_is_first_500 [OF world_reply_simps(1-3) world_reply_reach(1) world_reply_simps(4)
      world_reply_reach(2-4) a long_reply(2)]
  have 1: "filter is_tts (fst (turn (world_reply (replicate 600 0x61) (Inr 0))))
       = [EdgeTts VOICE (replicate 500 0x61) (str ''reply.mp3'')]"
    by simp
  from spoken_is_first_500 [OF world_reply_simps(1-3) world_reply_reach(1) world_reply_simps(4)
      world_reply_reach(2-4) b normalize_hi] l
  have 2: "filter is_tts (fst (turn (world_reply (str ''Hi there'') (Inr 0))))
       = [EdgeTts VOICE (str ''Hi there'') (str ''reply.mp3'')]"
    by simp
  from 1 2 l show ?thesis by simp
qed

text \<open>
  C8, as amended. In a turn that reaches the synthesis, the playback is attempted whenever
  the \<open>edge-tts\<close> call returns, whatever its exit status, and nothing is reported about
  the status: the turn looks for \<open>ffplay\<close>, and when that call and the player raise
  nothing it plays the file with \<open>ffplay\<close> or hands it to \<open>Start-Process\<close> and the loop
  goes on. Only when the \<open>edge-tts\<close> call itself raises is there no playback call: an
  ordinary exception gets the \<open>Unexpected error\<close> line and the loop goes on, a
  \<open>KeyboardInterrupt\<close> or an \<open>EOFError\<close> gets its exit line and ends the loop, and any
  other exception leaves the loop uncaught.
\<close>

theorem tts_status_ignored:
  assumes "cue w = Enter" "capture w = None" "segments w = Inr segs"
    and "quality_gate (transcribe_audio segs) = None"
    and "bridge w (transcribe_audio segs) SESSION_ID = Inr p"
    and "returncode p = 0" "stdout p \<noteq> []" "loads w (stdout p) = Some data"
    and "select_reply data = Inr r" "normalize_reply r = Inr n"
  shows "(\<forall>rc. edge_tts w VOICE (take 500 n) = Inr rc \<longrightarrow>
            (\<exists>rest out. turn w = (turn_prefix (transcribe_audio segs) @
               [Print [str ''Mina:'', n], EdgeTts VOICE (take 500 n) (str ''reply.mp3''),
                WhereFfplay] @ rest, out))
          \<and> (where_ffplay w = Inr 0 \<and> player w = None \<longrightarrow>
               turn w = (turn_prefix (transcribe_audio segs) @
                 [Print [str ''Mina:'', n], EdgeTts VOICE (take 500 n) (str ''reply.mp3''),
                  WhereFfplay, Ffplay (str ''reply.mp3'')], Continue))
          \<and> (\<forall>rc'. where_ffplay w = Inr rc' \<and> rc' \<noteq> 0 \<and> player w = None \<longrightarrow>
               turn w = (turn_prefix (transcribe_audio segs) @
                 [Print [str ''Mina:'', n], EdgeTts VOICE (take 500 n) (str ''reply.mp3''),
                  WhereFfplay, StartProcess (str ''reply.mp3'')], Continue)))
    \<and> (\<forall>e. edge_tts w VOICE (take 500 n) = Inl e \<longrightarrow>
          (\<forall>ev\<in>set (fst (turn w)). \<not> is_playback ev)
          \<and> (exn_class e = IsException \<longrightarrow>
               turn w = (turn_prefix (transcribe_audio segs) @
                 [Print [str ''Mina:'', n], EdgeTts VOICE (take 500 n) (str ''reply.mp3''),
                  Print [str ''Unexpected error: '' @ exn_name e @ str '': '' @ exn_msg e]],
                 Continue))
          \<and> (exn_class e = IsKeyboardInterrupt \<longrightarrow>
               turn w = (turn_prefix (transcribe_audio segs) @
                 [Print [str ''Mina:'', n], EdgeTts VOICE (take 500 n) (str ''reply.mp3''),
                  Print [[0x0A] @ str ''Bye.'']], Break))
          \<and> (exn_class e = IsEOFError \<longrightarrow>
               turn w = (turn_prefix (transcribe_audio segs) @
                 [Print [str ''Mina:'', n], EdgeTts VOICE (take 500 n) (str ''reply.mp3''),
                  Print [[0x0A] @ str ''Input stream closed. Exiting.'']], Break))
          \<and> (exn_class e = IsBaseException \<longrightarrow>
               turn w = (turn_prefix (transcribe_audio segs) @
                 [Print [str ''Mina:'', n], EdgeTts VOICE (take 500 n) (str ''reply.mp3'')],
                 Raise e)))"
proof -
  note t = turn_at_reply [OF assms]
  have q: "\<forall>ev\<in>set (turn_prefix (transcribe_audio segs)). \<not> is_playback ev"
    by (simp add: turn_prefix_def)
  have 1: "\<forall>rc. edge_tts w VOICE (take 500 n) = Inr rc \<longrightarrow>
            (\<exists>rest out. turn w = (turn_prefix (transcribe_audio segs) @
               [Print [str ''Mina:'', n], EdgeTts VOICE (take 500 n) (str ''reply.mp3''),
                WhereFfplay] @ rest, out))"
    by (auto simp: t emit_def play_audio_windows_def split: sum.splits option.splits)
  have 2: "\<forall>rc. edge_tts w VOICE (take 500 n) = Inr rc \<longrightarrow>
          (where_ffplay w = Inr 0 \<and> player w = None \<longrightarrow>
               turn w = (turn_prefix (transcribe_audio segs) @
                 [Print [str ''Mina:'', n], EdgeTts VOICE (take 500 n) (str ''reply.mp3''),
                  WhereFfplay, Ffplay (str ''reply.mp3'')], Continue))"
    by (simp add: t emit_def play_audio_windows_def)
  have 3: "\<forall>rc. edge_tts w VOICE (take 500 n) = Inr rc \<longrightarrow>
          (\<forall>rc'. where_ffplay w = Inr rc' \<and> rc' \<noteq> 0 \<and> player w = None \<longrightarrow>
               turn w = (turn_prefix (transcribe_audio segs) @
                 [Print [str ''Mina:'', n], EdgeTts VOICE (take 500 n) (str ''reply.mp3''),
                  WhereFfplay, StartProcess (str ''reply.mp3'')], Continue))"
    by (simp add: t emit_def play_audio_windows_def)
  have 4: "\<forall>e. edge_tts w VOICE (take 500 n) = Inl e \<longrightarrow>
          (\<forall>ev\<in>set (fst (turn w)). \<not> is_playback ev)"
    using q handlers_quiet by (auto simp: t emit_def)
  have 5: "\<forall>e. edge_tts w VOICE (take 500 n) = Inl e \<longrightarrow>
          (exn_class e = IsException \<longrightarrow>
               turn w = (turn_prefix (transcribe_audio segs) @
                 [Print [str ''Mina:'', n], EdgeTts VOICE (take 500 n) (str ''reply.mp3''),
                  Print [str ''Unexpected error: '' @ exn_name e @ str '': '' @ exn_msg e]],
                 Continue))
          \<and> (exn_class e = IsKeyboardInterrupt \<longrightarrow>
               turn w = (turn_prefix (transcribe_audio segs) @
                 [Print [str ''Mina:'', n], EdgeTts VOICE (take 500 n) (str ''reply.mp3''),
                  Print [[0x0A] @ str ''Bye.'']], Break))
          \<and> (exn_class e = IsEOFError \<longrightarrow>
               turn w = (turn_prefix (transcribe_audio segs) @
                 [Print [str ''Mina:'', n], EdgeTts VOICE (take 500 n) (str ''reply.mp3''),
                  Print [[0x0A] @ str ''Input stream closed. Exiting.'']], Break))
          \<and> (exn_class e = IsBaseException \<longrightarrow>
               turn w = (turn_prefix (transcribe_audio segs) @
                 [Print [str ''Mina:'', n], EdgeTts VOICE (take 500 n) (str ''reply.mp3'')],
                 Raise e))"
    by (simp add: t emit_def handlers_def unexpected_def)
  from 1 2 3 4 5 show ?thesis by blast
qed

theorem tts_status_ignored_witness:
  "turn (world_play (str ''Hi there'') (Inr 1) (Inr 0) None) =
       (turn_prefix (str ''turn on lights'') @
          [Print [str ''Mina:'', str ''Hi there''],
           EdgeTts VOICE (str ''Hi there'') (str ''reply.mp3''),
           WhereFfplay, Ffplay (str ''reply.mp3'')], Continue)
   \<and> turn (world_play (str ''Hi there'') (Inr 1) (Inr 1) None) =
       (turn_prefix (str ''turn on lights'') @
          [Print [str ''Mina:'', str ''Hi there''],
           EdgeTts VOICE (str ''Hi there'') (str ''reply.mp3''),
           WhereFfplay, StartProcess (str ''reply.mp3'')], Continue)
   \<and> turn (world_play (str ''Hi there'')
         (Inl (Exn IsException (str ''FileNotFoundError'') (str ''edge-tts''))) (Inr 0) None) =
       (turn_prefix (str ''turn on lights'') @
          [Print [str ''Mina:'', str ''Hi there''],
           EdgeTts VOICE (str ''Hi there'') (str ''reply.mp3''),
           Print [str ''Unexpected error: '' @ str ''FileNotFoundError'' @ str '': '' @ str ''edge-tts'']],
        Continue)
   \<and> turn (world_play (str ''Hi there'')
         (Inl (Exn IsKeyboardInterrupt (str ''KeyboardInterrupt'') [])) (Inr 0) None) =
       (turn_prefix (str ''turn on lights'') @
          [Print [str ''Mina:'', str ''Hi there''],
           EdgeTts VOICE (str ''Hi there'') (str ''reply.mp3''),
           Print [[0x0A] @ str ''Bye.'']], Break)
   \<and> turn (world_play (str ''Hi there'')
         (Inl (Exn IsEOFError (str ''EOFError'') [])) (Inr 0) None) =
       (turn_prefix (str ''turn on lights'') @
          [Print [str ''Mina:'', str ''Hi there''],
           EdgeTts VOICE (str ''Hi there'') (str ''reply.mp3''),
           Print [[0x0A] @ str ''Input stream closed. Exiting.'']], Break)
   \<and> turn (world_play (str ''Hi there'')
         (Inl (Exn IsBaseException (str ''SystemExit'') [])) (Inr 0) None) =
       (turn_prefix (str ''turn on lights'') @
          [Print [str ''Mina:'', str ''Hi there''],
           EdgeTts VOICE (str ''Hi there'') (str ''reply.mp3'')],
        Raise (Exn IsBaseException (str ''SystemExit'') []))"
proof -
  have b: "select_reply (reply_json (str ''Hi there'')) = Inr (str ''Hi there'')"
    using select_reply_reply_json [of "str ''Hi there''"] by (simp add: strip_hi) (simp add: str_def)
  have t: "take 500 (str ''Hi there'') = str ''Hi there''" by (simp add: str_def)
  note th = tts_status_ignored [OF world_play_simps(1-3) world_play_reach(1) world_play_simps(4)
      world_play_reach(2-4) b normalize_hi]
  from th [of "Inr 1" "Inr 0" None]
  have 1: "turn (world_play (str ''Hi there'') (Inr 1) (Inr 0) None) =
       (turn_prefix (str ''turn on lights'') @
          [Print [str ''Mina:'', str ''Hi there''],
           EdgeTts VOICE (str ''Hi there'') (str ''reply.mp3''),
           WhereFfplay, Ffplay (str ''reply.mp3'')], Continue)"
    by (simp add: world_play_simps t example_transcript)
  from th [of "Inr 1" "Inr 1" None]
  have 2: "turn (world_play (str ''Hi there'') (Inr 1) (Inr 1) None) =
       (turn_prefix (str ''turn on lights'') @
          [Print [str ''Mina:'', str ''Hi there''],
           EdgeTts VOICE (str ''Hi there'') (str ''reply.mp3''),
           WhereFfplay, StartProcess (str ''reply.mp3'')], Continue)"
    by (simp add: world_play_simps t example_transcript)
  from th [of "Inl (Exn IsException (str ''FileNotFoundError'') (str ''edge-tts''))" "Inr 0" None]
  have 3: "turn (world_play (str ''Hi there'')
         (Inl (Exn IsException (str ''FileNotFoundError'') (str ''edge-tts''))) (Inr 0) None) =
       (turn_prefix (str ''turn on lights'') @
          [Print [str ''Mina:'', str ''Hi there''],
           EdgeTts VOICE (str ''Hi there'') (str ''reply.mp3''),
           Print [str ''Unexpected error: '' @ str ''FileNotFoundError'' @ str '': '' @ str ''edge-tts'']],
        Continue)"
    by (simp add: world_play_simps t example_transcript)
  from th [of "Inl (Exn IsKeyboardInterrupt (str ''KeyboardInterrupt'') [])" "Inr 0" None]
  have 4: "turn (world_play (str ''Hi there'')
         (Inl (Exn IsKeyboardInterrupt (str ''KeyboardInterrupt'') [])) (Inr 0) None) =
       (turn_prefix (str ''turn on lights'') @
          [Print [str ''Mina:'', str ''Hi there''],
           EdgeTts VOICE (str ''Hi there'') (str ''reply.mp3''),
           Print [[0x0A] @ str ''Bye.'']], Break)"
    by (simp add: world_play_simps t example_transcript)
  from th [of "Inl (Exn IsEOFError (str ''EOFError'') [])" "Inr 0" None]
  have 5: "turn (world_play (str ''Hi there'')
         (Inl (Exn IsEOFError (str ''EOFError'') [])) (Inr 0) None) =
       (turn_prefix (str ''turn on lights'') @
          [Print [str ''Mina:'', str ''Hi there''],
           EdgeTts VOICE (str ''Hi there'') (str ''reply.mp3''),
           Print [[0x0A] @ str ''Input stream closed. Exiting.'']], Break)"
    by (simp add: world_play_simps t example_transcript)
  from th [of "Inl (Exn IsBaseException (str ''SystemExit'') [])" "Inr 0" None]
  have 6: "turn (world_play (str ''Hi there'')
         (Inl (Exn IsBaseException (str ''SystemExit'') [])) (Inr 0) None) =
       (turn_prefix (str ''turn on lights'') @
          [Print [str ''Mina:'', str ''Hi there''],
           EdgeTts VOICE (str ''Hi there'') (str ''reply.mp3'')],
        Raise (Exn IsBaseException (str ''SystemExit'') []))"
    by (simp add: world_play_simps t example_transcript)
  from 1 2 3 4 5 6 show ?thesis by simp
qed

text \<open>
  C8 as stated has the playback only after a successful synthesis. With the exit status 1
  of \<open>edge-tts\<close> the turn still looks for the player and plays the file, and prints no
  failure.
\<close>

theorem tts_failure_counterexample:
  "edge_tts (world_reply (str ''Hi there'') (Inr 1)) VOICE (str ''Hi there'') = Inr 1
   \<and> turn (world_reply (str ''Hi there'') (Inr 1)) =
       (turn_prefix (str ''turn on lights'') @
          [Print [str ''Mina:'', str ''Hi there''],
           EdgeTts VOICE (str ''Hi there'') (str ''reply.mp3''),
           WhereFfplay, Ffplay (str ''reply.mp3'')], Continue)"
proof -
  have s: "strip (str ''Hi there'') \<noteq> []" by (simp add: strip_hi) (simp add: str_def)
  have n: "normalize_reply (strip (str ''Hi there'')) = Inr (str ''Hi there'')"
    by (simp add: strip_hi normalize_hi)
  have t: "take 500 (str ''Hi there'') = str ''Hi there''" by (simp add: str_def)
  from turn_world_play [OF s n, of "Inr 1" "Inr 0" None] show ?thesis
    by (simp add: world_reply_def world_play_simps t emit_def play_audio_windows_def)
qed

end
